theory Spec2Isabelle
  imports Main
begin

section \<open>The room registry of \<open>main.py\<close>\<close>

text \<open>
  \<open>ConnectionManager.active\<close> is a dictionary from room code to the list of websockets
  of that room. A websocket is an object compared by identity; the type variable \<open>'ws\<close>
  stands for these identities. The order of a room's list and repeated entries matter
  (\<open>append\<close>, \<open>remove\<close>), so the value stored for a room is a list.

  The transport is outside the program. What it does is recorded in the \<open>history\<close> of the
  world: one entry for each \<open>websocket.accept()\<close> and each \<open>ws.send_json(message)\<close>, with
  \<open>True\<close> when the call returned and \<open>False\<close> when it raised an \<open>Exception\<close>. Whether
  the next call returns is a parameter of the operations (\<open>accept_ok\<close>, \<open>send_ok\<close>) that may
  depend on everything that happened so far.
\<close>

type_synonym room = string

datatype ('ws, 'msg) io =
    Accept 'ws bool
  | Send 'ws 'msg bool

fun peer :: "('ws, 'msg) io \<Rightarrow> 'ws" where
  "peer (Accept ws b) = ws"
| "peer (Send ws m b) = ws"

fun returned :: "('ws, 'msg) io \<Rightarrow> bool" where
  "returned (Accept ws b) = b"
| "returned (Send ws m b) = b"

fun is_send_of :: "'msg \<Rightarrow> ('ws, 'msg) io \<Rightarrow> bool" where
  "is_send_of m (Accept ws b) = False"
| "is_send_of m (Send ws m' b) = (m' = m)"

record ('ws, 'msg) world =
  active :: "room \<rightharpoonup> 'ws list"
  history :: "('ws, 'msg) io list"

text \<open>
  The exceptions of the registry code: a failed handshake, and the two the built-in
  containers raise, \<open>self.active[room]\<close> on a missing key and \<open>list.remove\<close> on a missing
  element. A call of the manager yields \<open>Inr ()\<close> when it returns and \<open>Inl e\<close> when it raises
  \<open>e\<close>, together with the world it leaves behind.
\<close>

datatype exn = HandshakeError | KeyError | ValueError

definition getitem :: "('k \<rightharpoonup> 'v) \<Rightarrow> 'k \<Rightarrow> exn + 'v" where
  "getitem d k = (case d k of None \<Rightarrow> Inl KeyError | Some v \<Rightarrow> Inr v)"

definition list_remove :: "'a \<Rightarrow> 'a list \<Rightarrow> exn + 'a list" where
  "list_remove x xs = (if x \<in> set xs then Inr (remove1 x xs) else Inl ValueError)"

definition delitem :: "('k \<rightharpoonup> 'v) \<Rightarrow> 'k \<Rightarrow> exn + ('k \<rightharpoonup> 'v)" where
  "delitem d k = (case d k of None \<Rightarrow> Inl KeyError | Some v \<Rightarrow> Inr (d(k := None)))"

text \<open>
  \<^verbatim>\<open>
  async def connect(self, room, websocket):
      await websocket.accept()
      self.active.setdefault(room, []).append(websocket)
  \<close>
  When \<open>accept\<close> raises, the exception leaves \<open>connect\<close> before the dictionary is touched.
\<close>

definition connect ::
  "(('ws, 'msg) io list \<Rightarrow> 'ws \<Rightarrow> bool) \<Rightarrow> room \<Rightarrow> 'ws \<Rightarrow> ('ws, 'msg) world
     \<Rightarrow> (exn + unit) \<times> ('ws, 'msg) world" where
  "connect accept_ok room websocket w =
     (if accept_ok (history w) websocket then
        (Inr (),
         w\<lparr>active := (active w)(room \<mapsto>
               (case active w room of None \<Rightarrow> [] | Some xs \<Rightarrow> xs) @ [websocket]),
           history := history w @ [Accept websocket True]\<rparr>)
      else
        (Inl HandshakeError, w\<lparr>history := history w @ [Accept websocket False]\<rparr>))"

text \<open>
  \<^verbatim>\<open>
  def disconnect(self, room, websocket):
      if room in self.active and websocket in self.active[room]:
          self.active[room].remove(websocket)
          if not self.active[room]:
              del self.active[room]
  \<close>
  \<open>list.remove\<close> deletes the first occurrence, which is \<^const>\<open>remove1\<close>. The \<open>and\<close> of the
  guard reads \<open>self.active[room]\<close> only when the room is a key.
\<close>

definition disconnect ::
  "room \<Rightarrow> 'ws \<Rightarrow> ('ws, 'msg) world \<Rightarrow> (exn + unit) \<times> ('ws, 'msg) world" where
  "disconnect room websocket w =
     (if active w room = None then (Inr (), w)
      else
        (case getitem (active w) room of
           Inl e \<Rightarrow> (Inl e, w)
         | Inr xs \<Rightarrow>
             if websocket \<in> set xs then
               (case list_remove websocket xs of
                  Inl e \<Rightarrow> (Inl e, w)
                | Inr xs' \<Rightarrow>
                    if xs' = [] then
                      (case delitem ((active w)(room \<mapsto> xs')) room of
                         Inl e \<Rightarrow> (Inl e, w\<lparr>active := (active w)(room \<mapsto> xs')\<rparr>)
                       | Inr d \<Rightarrow> (Inr (), w\<lparr>active := d\<rparr>))
                    else (Inr (), w\<lparr>active := (active w)(room \<mapsto> xs')\<rparr>))
             else (Inr (), w)))"

text \<open>
  \<^verbatim>\<open>
  async def broadcast(self, room, message):
      if room not in self.active:
          return
      living = []
      for ws in self.active[room]:
          try:
              await ws.send_json(message)
              living.append(ws)
          except Exception:
              pass
      self.active[room] = living
  \<close>
  The loop is \<open>broadcast_loop\<close>: the sessions still to visit, the list \<open>living\<close> built so
  far and the history. The run of one call is modelled without other handlers running in
  between its sends.
\<close>

fun broadcast_loop ::
  "(('ws, 'msg) io list \<Rightarrow> 'ws \<Rightarrow> 'msg \<Rightarrow> bool) \<Rightarrow> 'msg \<Rightarrow> 'ws list \<Rightarrow> 'ws list
     \<Rightarrow> ('ws, 'msg) io list \<Rightarrow> 'ws list \<times> ('ws, 'msg) io list" where
  "broadcast_loop send_ok message [] living h = (living, h)"
| "broadcast_loop send_ok message (ws # rest) living h =
     (if send_ok h ws message
      then broadcast_loop send_ok message rest (living @ [ws]) (h @ [Send ws message True])
      else broadcast_loop send_ok message rest living (h @ [Send ws message False]))"

definition broadcast ::
  "(('ws, 'msg) io list \<Rightarrow> 'ws \<Rightarrow> 'msg \<Rightarrow> bool) \<Rightarrow> room \<Rightarrow> 'msg \<Rightarrow> ('ws, 'msg) world
     \<Rightarrow> (exn + unit) \<times> ('ws, 'msg) world" where
  "broadcast send_ok room message w =
     (if active w room = None then (Inr (), w)
      else
        (case getitem (active w) room of
           Inl e \<Rightarrow> (Inl e, w)
         | Inr xs \<Rightarrow>
             (case broadcast_loop send_ok message xs [] (history w) of
                (living, h) \<Rightarrow>
                  (Inr (), w\<lparr>active := (active w)(room \<mapsto> living), history := h\<rparr>))))"

text \<open>The transport calls made between two worlds.\<close>

definition new_io :: "('ws, 'msg) world \<Rightarrow> ('ws, 'msg) world \<Rightarrow> ('ws, 'msg) io list" where
  "new_io w w' = drop (length (history w)) (history w')"

section \<open>The websocket endpoint\<close>

text \<open>
  A Python string is represented by the bytes of its UTF-8 encoding, so the characters
  below 128 are the ASCII characters. On a string of ASCII characters \<open>str.upper()\<close>
  replaces the letters \<open>a\<close> to \<open>z\<close> by \<open>A\<close> to \<open>Z\<close> and keeps every other character. On a
  string that has a character outside ASCII its result comes from the case tables of
  Unicode, which are not part of the sources: there the result is given by the parameter
  \<open>uni\<close>, about which nothing is assumed.
\<close>

definition is_ascii :: "char \<Rightarrow> bool" where
  "is_ascii c = ((of_char c :: nat) < 128)"

definition is_lower :: "char \<Rightarrow> bool" where
  "is_lower c = (97 \<le> (of_char c :: nat) \<and> (of_char c :: nat) \<le> 122)"

definition ascii_upper :: "char \<Rightarrow> char" where
  "ascii_upper c = (if is_lower c then char_of ((of_char c :: nat) - 32) else c)"

definition upper :: "(string \<Rightarrow> string) \<Rightarrow> string \<Rightarrow> string" where
  "upper uni s = (if list_all is_ascii s then map ascii_upper s else uni s)"

text \<open>
  \<^verbatim>\<open>
  async def ws_room(websocket, code):
      code = code.upper()
      await manager.connect(code, websocket)
      try:
          while True:
              data = await websocket.receive_json()
              await manager.broadcast(code, data)
      except WebSocketDisconnect:
          manager.disconnect(code, websocket)
      except Exception:
          manager.disconnect(code, websocket)
  \<close>
  What \<open>receive_json\<close> yields is the input of the handler: a list of results, each a
  received message, the peer's close (\<open>WebSocketDisconnect\<close>) or another \<open>Exception\<close>.
  When the list is used up the handler is suspended in \<open>receive_json\<close>. Both \<open>except\<close>
  clauses run the same statement, and the second also covers an exception of \<open>broadcast\<close>.
\<close>

datatype 'msg inbound = Data 'msg | PeerClosed | ReceiveFailed

fun receive_loop ::
  "(('ws, 'msg) io list \<Rightarrow> 'ws \<Rightarrow> 'msg \<Rightarrow> bool) \<Rightarrow> room \<Rightarrow> 'ws \<Rightarrow> 'msg inbound list
     \<Rightarrow> ('ws, 'msg) world \<Rightarrow> (exn + unit) \<times> ('ws, 'msg) world" where
  "receive_loop send_ok code websocket [] w = (Inr (), w)"
| "receive_loop send_ok code websocket (Data d # rest) w =
     (case broadcast send_ok code d w of
        (Inl e, w') \<Rightarrow> disconnect code websocket w'
      | (Inr u, w') \<Rightarrow> receive_loop send_ok code websocket rest w')"
| "receive_loop send_ok code websocket (PeerClosed # rest) w = disconnect code websocket w"
| "receive_loop send_ok code websocket (ReceiveFailed # rest) w = disconnect code websocket w"

definition ws_room ::
  "(string \<Rightarrow> string) \<Rightarrow> (('ws, 'msg) io list \<Rightarrow> 'ws \<Rightarrow> bool)
     \<Rightarrow> (('ws, 'msg) io list \<Rightarrow> 'ws \<Rightarrow> 'msg \<Rightarrow> bool)
     \<Rightarrow> 'ws \<Rightarrow> string \<Rightarrow> 'msg inbound list \<Rightarrow> ('ws, 'msg) world
     \<Rightarrow> (exn + unit) \<times> ('ws, 'msg) world" where
  "ws_room uni accept_ok send_ok websocket code inb w =
     (let code = upper uni code in
      case connect accept_ok code websocket w of
        (Inl e, w') \<Rightarrow> (Inl e, w')
      | (Inr u, w') \<Rightarrow> receive_loop send_ok code websocket inb w')"

section \<open>Sequences of registry calls\<close>

text \<open>
  A caller of the manager issues \<open>connect\<close>, \<open>disconnect\<close> and \<open>broadcast\<close> in any order.
  \<open>run\<close> performs a list of calls from a world; a call that raises leaves the world it
  reached and the next call goes on from there, as a new handler would.
\<close>

datatype ('ws, 'msg) call =
    Connect room 'ws
  | Disconnect room 'ws
  | Broadcast room 'msg

fun perform ::
  "(('ws, 'msg) io list \<Rightarrow> 'ws \<Rightarrow> bool) \<Rightarrow> (('ws, 'msg) io list \<Rightarrow> 'ws \<Rightarrow> 'msg \<Rightarrow> bool)
     \<Rightarrow> ('ws, 'msg) call \<Rightarrow> ('ws, 'msg) world \<Rightarrow> ('ws, 'msg) world" where
  "perform accept_ok send_ok (Connect room ws) w = snd (connect accept_ok room ws w)"
| "perform accept_ok send_ok (Disconnect room ws) w = snd (disconnect room ws w)"
| "perform accept_ok send_ok (Broadcast room m) w = snd (broadcast send_ok room m w)"

fun run ::
  "(('ws, 'msg) io list \<Rightarrow> 'ws \<Rightarrow> bool) \<Rightarrow> (('ws, 'msg) io list \<Rightarrow> 'ws \<Rightarrow> 'msg \<Rightarrow> bool)
     \<Rightarrow> ('ws, 'msg) call list \<Rightarrow> ('ws, 'msg) world \<Rightarrow> ('ws, 'msg) world" where
  "run accept_ok send_ok [] w = w"
| "run accept_ok send_ok (c # cs) w = run accept_ok send_ok cs (perform accept_ok send_ok c w)"

definition initial :: "('ws, 'msg) world" where
  "initial = \<lparr>active = Map.empty, history = []\<rparr>"

text \<open>The invariant of the registry: no key is mapped to the empty list.\<close>

definition no_empty_room :: "('ws, 'msg) world \<Rightarrow> bool" where
  "no_empty_room w = (\<forall>r. active w r \<noteq> Some [])"

fun is_broadcast :: "('ws, 'msg) call \<Rightarrow> bool" where
  "is_broadcast (Broadcast room m) = True"
| "is_broadcast c = False"

text \<open>How many times a websocket is listed in a room.\<close>

definition occurrences :: "room \<Rightarrow> 'ws \<Rightarrow> ('ws, 'msg) world \<Rightarrow> nat" where
  "occurrences room ws w = (case active w room of None \<Rightarrow> 0 | Some xs \<Rightarrow> count_list xs ws)"

section \<open>The room directory\<close>

text \<open>
  The \<open>database\<close> module is not among the sources. The two collections are taken as the
  lists of their documents; \<open>get_documents\<close> with the filter \<open>{"code": code}\<close> and a limit
  keeps the first \<open>limit\<close> documents whose code is equal to \<open>code\<close> (an exact, case-sensitive
  match), \<open>create_document\<close> appends a document and returns the identifier the store gives
  it, and \<open>update_one\<close> changes the first matching document.
\<close>

record room_doc =
  doc_code :: string
  doc_host_id :: string
  doc_status :: "string option"
  doc_players :: "string list"
  doc_created_at :: string
  doc_updated_at :: string

record player_doc =
  player_name :: string
  player_avatar :: "string option"
  player_created_at :: string

record database =
  gameroom :: "room_doc list"
  player :: "(string \<times> player_doc) list"

definition get_documents :: "room_doc list \<Rightarrow> string \<Rightarrow> nat \<Rightarrow> room_doc list" where
  "get_documents coll code limit = take limit (filter (\<lambda>d. doc_code d = code) coll)"

text \<open>
  \<^verbatim>\<open>
  def get_room_by_code(code):
      rooms = get_documents(ROOMS_COLLECTION, {"code": code}, limit=1)
      return rooms[0] if rooms else None
  \<close>
\<close>

definition get_room_by_code :: "database \<Rightarrow> string \<Rightarrow> room_doc option" where
  "get_room_by_code db code =
     (case get_documents (gameroom db) code 1 of [] \<Rightarrow> None | r # rooms \<Rightarrow> Some r)"

fun update_one :: "string \<Rightarrow> (room_doc \<Rightarrow> room_doc) \<Rightarrow> room_doc list \<Rightarrow> room_doc list" where
  "update_one code f [] = []"
| "update_one code f (d # ds) =
     (if doc_code d = code then f d # ds else d # update_one code f ds)"

definition add_to_set :: "'a \<Rightarrow> 'a list \<Rightarrow> 'a list" where
  "add_to_set x xs = (if x \<in> set xs then xs else xs @ [x])"

text \<open>
  \<^verbatim>\<open>
  def join_room(payload):
      room = get_room_by_code(payload.code.upper())
      if not room:
          raise HTTPException(status_code=404, detail="Room not found")
      if room.get("status") == "active":
          raise HTTPException(status_code=400, detail="Game already started")
      player_id = create_document(PLAYERS_COLLECTION,
          {"name": payload.name, "avatar": payload.avatar, "created_at": now_iso()})
      db[ROOMS_COLLECTION].update_one({"code": room["code"]},
          {"$addToSet": {"players": player_id}, "$set": {"updated_at": now_iso()}})
      return {"code": room["code"], "player_id": player_id}
  \<close>
  The two readings of the clock and the identifier of the new player document are
  parameters.
\<close>

record join_room_request =
  req_name :: string
  req_avatar :: "string option"
  req_code :: string

text \<open>
  An endpoint answers with an \<open>HTTPException\<close> it raises itself, or fails with the
  \<open>InvalidId\<close> that \<open>bson.ObjectId\<close> raises in \<open>get_room\<close>.
\<close>

datatype http_error = HTTPException nat string | InvalidId

definition join_room ::
  "(string \<Rightarrow> string) \<Rightarrow> string \<Rightarrow> string \<Rightarrow> string \<Rightarrow> join_room_request \<Rightarrow> database
     \<Rightarrow> (http_error + string \<times> string) \<times> database" where
  "join_room uni now1 now2 player_id payload db =
     (case get_room_by_code db (upper uni (req_code payload)) of
        None \<Rightarrow> (Inl (HTTPException 404 ''Room not found''), db)
      | Some room \<Rightarrow>
          if doc_status room = Some ''active'' then
            (Inl (HTTPException 400 ''Game already started''), db)
          else
            (Inr (doc_code room, player_id),
             db\<lparr>player := player db @
                   [(player_id, \<lparr>player_name = req_name payload,
                                  player_avatar = req_avatar payload,
                                  player_created_at = now1\<rparr>)],
                gameroom := update_one (doc_code room)
                   (\<lambda>d. d\<lparr>doc_players := add_to_set player_id (doc_players d),
                           doc_updated_at := now2\<rparr>)
                   (gameroom db)\<rparr>))"

text \<open>
  \<^verbatim>\<open>
  def get_room(code):
      room = get_room_by_code(code.upper())
      if not room:
          raise HTTPException(status_code=404, detail="Room not found")
      players = list(db[PLAYERS_COLLECTION].find({"_id": {"$in": [
          db[PLAYERS_COLLECTION].name and __import__('bson').ObjectId(pid)
          if len(pid)==24 else None for pid in room.get('players', [])]}}))
      return {"code": room["code"], "host_id": room["host_id"],
              "status": room.get("status", "waiting"), "players": room.get("players", [])}
  \<close>
  The result of \<open>find\<close> is not used. Building its filter calls \<open>ObjectId(pid)\<close> for the
  player identifiers of 24 characters, which raises \<open>InvalidId\<close> for one that is not an
  object identifier; \<open>object_id_raises\<close> says for which identifiers that happens (\<open>bson\<close> is
  not among the sources).
\<close>

record room_view =
  view_code :: string
  view_host_id :: string
  view_status :: string
  view_players :: "string list"

definition get_room ::
  "(string \<Rightarrow> string) \<Rightarrow> (string \<Rightarrow> bool) \<Rightarrow> string \<Rightarrow> database \<Rightarrow> http_error + room_view" where
  "get_room uni object_id_raises code db =
     (case get_room_by_code db (upper uni code) of
        None \<Rightarrow> Inl (HTTPException 404 ''Room not found'')
      | Some room \<Rightarrow>
          if list_ex object_id_raises (doc_players room) then Inl InvalidId
          else Inr \<lparr>view_code = doc_code room, view_host_id = doc_host_id room,
                    view_status = (case doc_status room of None \<Rightarrow> ''waiting'' | Some st \<Rightarrow> st),
                    view_players = doc_players room\<rparr>)"

text \<open>
  \<^verbatim>\<open>
  def start_game(payload):
      room = get_room_by_code(payload.code.upper())
      if not room:
          raise HTTPException(status_code=404, detail="Room not found")
      db[ROOMS_COLLECTION].update_one({"code": room["code"]},
          {"$set": {"status": "active", "updated_at": now_iso()}})
      return {"ok": True}
  \<close>
\<close>

definition start_game ::
  "(string \<Rightarrow> string) \<Rightarrow> string \<Rightarrow> string \<Rightarrow> database \<Rightarrow> (http_error + bool) \<times> database" where
  "start_game uni now code db =
     (case get_room_by_code db (upper uni code) of
        None \<Rightarrow> (Inl (HTTPException 404 ''Room not found''), db)
      | Some room \<Rightarrow>
          (Inr True,
           db\<lparr>gameroom := update_one (doc_code room)
                 (\<lambda>d. d\<lparr>doc_status := Some ''active'', doc_updated_at := now\<rparr>)
                 (gameroom db)\<rparr>))"

text \<open>
  \<^verbatim>\<open>
  def gen_code(length = 6):
      chars = string.ascii_uppercase + string.digits
      return "".join(random.choice(chars) for _ in range(length))
  \<close>
  The random choices are a parameter: \<open>draw i\<close> is the index that the \<open>i\<close>-th call of
  \<open>random.choice\<close> picks, taken below the length of \<open>chars\<close>.
\<close>

definition chars :: string where
  "chars = ''ABCDEFGHIJKLMNOPQRSTUVWXYZ0123456789''"

definition gen_code :: "(nat \<Rightarrow> nat) \<Rightarrow> nat \<Rightarrow> string" where
  "gen_code draw len = map (\<lambda>i. chars ! (draw i mod length chars)) [0..<len]"

text \<open>
  \<^verbatim>\<open>
  def create_room(payload):
      player_id = create_document(PLAYERS_COLLECTION,
          {"name": payload.name, "avatar": payload.avatar, "created_at": now_iso()})
      tries = 0
      code = gen_code()
      while get_room_by_code(code) is not None and tries < 5:
          code = gen_code()
          tries += 1
      room_doc = {"code": code, "host_id": player_id, "status": "waiting",
                  "players": [player_id], "created_at": now_iso(), "updated_at": now_iso()}
      create_document(ROOMS_COLLECTION, room_doc)
      return {"code": code, "player_id": player_id, "status": "waiting"}
  \<close>
  \<open>draws k\<close> are the random choices of the \<open>k\<close>-th call of \<open>gen_code\<close>. The loop is
  \<open>unused_code\<close>; it ends because \<open>tries\<close> grows up to 5.
\<close>

function unused_code :: "database \<Rightarrow> (nat \<Rightarrow> nat \<Rightarrow> nat) \<Rightarrow> nat \<Rightarrow> string \<Rightarrow> string" where
  "unused_code db draws tries code =
     (if get_room_by_code db code \<noteq> None \<and> tries < 5
      then unused_code db draws (tries + 1) (gen_code (draws (tries + 1)) 6)
      else code)"
  by pat_completeness auto
termination
  by (relation "measure (\<lambda>(db, draws, tries, code). 5 - tries)") auto

record create_room_request =
  new_name :: string
  new_avatar :: "string option"

definition create_room ::
  "string \<Rightarrow> string \<Rightarrow> string \<Rightarrow> string \<Rightarrow> (nat \<Rightarrow> nat \<Rightarrow> nat) \<Rightarrow> create_room_request \<Rightarrow> database
     \<Rightarrow> (string \<times> string \<times> string) \<times> database" where
  "create_room now1 now2 now3 player_id draws payload db =
     (let db1 = db\<lparr>player := player db @
                  [(player_id, \<lparr>player_name = new_name payload,
                                 player_avatar = new_avatar payload,
                                 player_created_at = now1\<rparr>)]\<rparr>;
          code = unused_code db1 draws 0 (gen_code (draws 0) 6)
      in ((code, player_id, ''waiting''),
          db1\<lparr>gameroom := gameroom db1 @
                [\<lparr>doc_code = code, doc_host_id = player_id, doc_status = Some ''waiting'',
                  doc_players = [player_id], doc_created_at = now2,
                  doc_updated_at = now3\<rparr>]\<rparr>))"

text \<open>
  Two codes differ only in letter case when they have the same length and, position by
  position, the characters are equal or are the two cases of one ASCII letter.
\<close>

definition is_letter :: "char \<Rightarrow> bool" where
  "is_letter c =
     (let n = (of_char c :: nat) in (65 \<le> n \<and> n \<le> 90) \<or> (97 \<le> n \<and> n \<le> 122))"

definition same_letter :: "char \<Rightarrow> char \<Rightarrow> bool" where
  "same_letter a b =
     (a = b \<or> (is_letter a \<and> is_letter b \<and>
        ((of_char a :: nat) = of_char b + 32 \<or> (of_char b :: nat) = of_char a + 32)))"

definition differ_only_in_case :: "string \<Rightarrow> string \<Rightarrow> bool" where
  "differ_only_in_case s t = list_all2 same_letter s t"

section \<open>A broadcast with other handlers running\<close>

text \<open>
  The handlers are coroutines on one event loop: the code between two \<open>await\<close>s runs
  without interruption, and while \<open>broadcast\<close> waits in \<open>await ws.send_json(message)\<close>
  other handlers run. What they change is seen through references: \<open>self.active\<close> maps a
  room to a list object, the \<open>for\<close> loop of \<open>broadcast\<close> iterates the list object it read
  at its start (not a copy), and \<open>living\<close> is a list object of its own. So the registry is
  kept here as a store of list objects: \<open>active_ref\<close> gives the object of a room and
  \<open>list_obj\<close> the contents of an object.
\<close>

type_synonym ref = nat

record ('ws, 'msg) store =
  active_ref :: "room \<rightharpoonup> ref"
  list_obj :: "ref \<Rightarrow> 'ws list"
  next_ref :: ref
  io_log :: "('ws, 'msg) io list"

definition empty_store :: "('ws, 'msg) store" where
  "empty_store = \<lparr>active_ref = Map.empty, list_obj = (\<lambda>r. []), next_ref = 0, io_log = []\<rparr>"

text \<open>The registry that a store holds: every room with the contents of its list object.\<close>

definition registry :: "('ws, 'msg) store \<Rightarrow> room \<rightharpoonup> 'ws list" where
  "registry s room = (case active_ref s room of None \<Rightarrow> None | Some r \<Rightarrow> Some (list_obj s r))"

text \<open>A new list object, as the expression \<open>[]\<close> makes one.\<close>

definition new_list :: "('ws, 'msg) store \<Rightarrow> ref \<times> ('ws, 'msg) store" where
  "new_list s = (next_ref s, s\<lparr>list_obj := (list_obj s)(next_ref s := []), next_ref := Suc (next_ref s)\<rparr>)"

text \<open>
  The second line of \<open>connect\<close>, which runs once the handshake has returned:
  \<^verbatim>\<open>self.active.setdefault(room, []).append(websocket)\<close>
\<close>

definition setdefault_append :: "room \<Rightarrow> 'ws \<Rightarrow> ('ws, 'msg) store \<Rightarrow> ('ws, 'msg) store" where
  "setdefault_append room websocket s =
     (case active_ref s room of
        Some r \<Rightarrow> s\<lparr>list_obj := (list_obj s)(r := list_obj s r @ [websocket])\<rparr>
      | None \<Rightarrow>
          (case new_list s of
             (r, s1) \<Rightarrow> s1\<lparr>active_ref := (active_ref s1)(room \<mapsto> r),
                           list_obj := (list_obj s1)(r := list_obj s1 r @ [websocket])\<rparr>))"

text \<open>\<open>disconnect\<close> has no \<open>await\<close>: it runs as one step. It changes the list object in place.\<close>

definition disconnect_in_place :: "room \<Rightarrow> 'ws \<Rightarrow> ('ws, 'msg) store \<Rightarrow> ('ws, 'msg) store" where
  "disconnect_in_place room websocket s =
     (case active_ref s room of
        None \<Rightarrow> s
      | Some r \<Rightarrow>
          if websocket \<in> set (list_obj s r) then
            (if remove1 websocket (list_obj s r) = []
             then s\<lparr>list_obj := (list_obj s)(r := remove1 websocket (list_obj s r)),
                    active_ref := (active_ref s)(room := None)\<rparr>
             else s\<lparr>list_obj := (list_obj s)(r := remove1 websocket (list_obj s r))\<rparr>)
          else s)"

text \<open>
  A broadcast that waits in \<open>send_json\<close>: its arguments, the list object the loop iterates
  and the position of the iterator in it, the list object \<open>living\<close>, and the session \<open>ws\<close>
  whose send is awaited.
\<close>

record ('ws, 'msg) in_flight =
  b_room :: room
  b_message :: 'msg
  b_iter :: ref
  b_index :: nat
  b_living :: ref
  b_ws :: 'ws

text \<open>
  The head of the \<open>for\<close> loop. The iterator of a list yields the element at its position
  while the position is below the present length of the list, and moves on by one; the
  body then calls \<open>send_json\<close> and waits. When the iterator is exhausted the loop ends and
  \<open>self.active[room] = living\<close> runs: the room is bound to the list object \<open>living\<close>.
\<close>

definition loop_head ::
  "room \<Rightarrow> 'msg \<Rightarrow> ref \<Rightarrow> nat \<Rightarrow> ref \<Rightarrow> ('ws, 'msg) store
     \<Rightarrow> ('ws, 'msg) in_flight option \<times> ('ws, 'msg) store" where
  "loop_head room message iter index living s =
     (if index < length (list_obj s iter) then
        (Some \<lparr>b_room = room, b_message = message, b_iter = iter, b_index = Suc index,
                b_living = living, b_ws = list_obj s iter ! index\<rparr>, s)
      else (None, s\<lparr>active_ref := (active_ref s)(room \<mapsto> living)\<rparr>))"

text \<open>
  The start of \<open>broadcast\<close>, up to its first \<open>await\<close>: the guard, \<open>living = []\<close>, and the loop
  on the list object of the room.
\<close>

definition broadcast_begin ::
  "room \<Rightarrow> 'msg \<Rightarrow> ('ws, 'msg) store \<Rightarrow> ('ws, 'msg) in_flight option \<times> ('ws, 'msg) store" where
  "broadcast_begin room message s =
     (case active_ref s room of
        None \<Rightarrow> (None, s)
      | Some iter \<Rightarrow> (case new_list s of (living, s1) \<Rightarrow> loop_head room message iter 0 living s1))"

text \<open>
  The awaited \<open>send_json\<close> ends: when it returned \<open>living.append(ws)\<close> runs, when it raised
  nothing does, and the loop goes to its head, up to the next \<open>await\<close> or the end.
\<close>

definition broadcast_resume ::
  "(('ws, 'msg) io list \<Rightarrow> 'ws \<Rightarrow> 'msg \<Rightarrow> bool) \<Rightarrow> ('ws, 'msg) in_flight \<Rightarrow> ('ws, 'msg) store
     \<Rightarrow> ('ws, 'msg) in_flight option \<times> ('ws, 'msg) store" where
  "broadcast_resume send_ok b s =
     (if send_ok (io_log s) (b_ws b) (b_message b) then
        loop_head (b_room b) (b_message b) (b_iter b) (b_index b) (b_living b)
          (s\<lparr>list_obj := (list_obj s)(b_living b := list_obj s (b_living b) @ [b_ws b]),
             io_log := io_log s @ [Send (b_ws b) (b_message b) True]\<rparr>)
      else
        loop_head (b_room b) (b_message b) (b_iter b) (b_index b) (b_living b)
          (s\<lparr>io_log := io_log s @ [Send (b_ws b) (b_message b) False]\<rparr>))"

text \<open>
  What happens while one broadcast is in flight, in the order the event loop runs it: the
  awaited send ends, another handler finishes a \<open>connect\<close> (\<open>Joins\<close>), or another handler
  runs \<open>disconnect\<close> (\<open>Leaves\<close>).
\<close>

datatype 'ws event = SendDone | Joins room 'ws | Leaves room 'ws

fun schedule ::
  "(('ws, 'msg) io list \<Rightarrow> 'ws \<Rightarrow> 'msg \<Rightarrow> bool) \<Rightarrow> 'ws event list
     \<Rightarrow> ('ws, 'msg) in_flight option \<times> ('ws, 'msg) store
     \<Rightarrow> ('ws, 'msg) in_flight option \<times> ('ws, 'msg) store" where
  "schedule send_ok [] st = st"
| "schedule send_ok (SendDone # es) (Some b, s) = schedule send_ok es (broadcast_resume send_ok b s)"
| "schedule send_ok (SendDone # es) (None, s) = schedule send_ok es (None, s)"
| "schedule send_ok (Joins room ws # es) (b, s) = schedule send_ok es (b, setdefault_append room ws s)"
| "schedule send_ok (Leaves room ws # es) (b, s) = schedule send_ok es (b, disconnect_in_place room ws s)"

text \<open>
  The world that a store stands for, and the condition under which it stands for one: the
  references in use were all handed out by \<open>new_list\<close>, and no two rooms share a list
  object.
\<close>

definition world_of :: "('ws, 'msg) store \<Rightarrow> ('ws, 'msg) world" where
  "world_of s = \<lparr>active = registry s, history = io_log s\<rparr>"

definition store_ok :: "('ws, 'msg) store \<Rightarrow> bool" where
  "store_ok s =
     ((\<forall>room r. active_ref s room = Some r \<longrightarrow> r < next_ref s)
      \<and> (\<forall>a b r. active_ref s a = Some r \<and> active_ref s b = Some r \<longrightarrow> a = b))"

text \<open>
  Two transports for examples: one on which every send returns, and one on which the
  sends to the session \<open>dead\<close> raise and all others return.
\<close>

definition transport_up :: "('ws, 'msg) io list \<Rightarrow> 'ws \<Rightarrow> 'msg \<Rightarrow> bool" where
  "transport_up h ws m = True"

definition severed :: "'ws \<Rightarrow> ('ws, 'msg) io list \<Rightarrow> 'ws \<Rightarrow> 'msg \<Rightarrow> bool" where
  "severed dead h ws m = (ws \<noteq> dead)"

section \<open>What one broadcast does\<close>

text \<open>
  The loop visits the sessions in the order of the list. Each visit adds one \<open>Send\<close> event
  to the history, and \<open>living\<close> grows by the sessions whose send returned.
\<close>

lemma broadcast_loop_run:
  "broadcast_loop send_ok m xs living h = (living', h') \<Longrightarrow>
     \<exists>evs. h' = h @ evs \<and> map peer evs = xs \<and> list_all (is_send_of m) evs
           \<and> living' = living @ map peer (filter returned evs)"
proof (induction xs arbitrary: living h)
  case Nil
  then show ?case by simp
next
  case (Cons ws rest)
  show ?case
  proof (cases "send_ok h ws m")
    case True
    with Cons.prems
    have "broadcast_loop send_ok m rest (living @ [ws]) (h @ [Send ws m True]) = (living', h')"
      by simp
    from Cons.IH [OF this] obtain evs where
      "h' = (h @ [Send ws m True]) @ evs" "map peer evs = rest" "list_all (is_send_of m) evs"
      "living' = (living @ [ws]) @ map peer (filter returned evs)" by blast
    then show ?thesis
      by (intro exI [of _ "Send ws m True # evs"]) simp
  next
    case False
    with Cons.prems
    have "broadcast_loop send_ok m rest living (h @ [Send ws m False]) = (living', h')"
      by simp
    from Cons.IH [OF this] obtain evs where
      "h' = (h @ [Send ws m False]) @ evs" "map peer evs = rest" "list_all (is_send_of m) evs"
      "living' = living @ map peer (filter returned evs)" by blast
    then show ?thesis
      by (intro exI [of _ "Send ws m False # evs"]) simp
  qed
qed

lemma broadcast_loop_outcomes:
  "broadcast_loop send_ok m xs living h = (living', h') \<Longrightarrow> i < length xs \<Longrightarrow>
     h' ! (length h + i) = Send (xs ! i) m (send_ok (take (length h + i) h') (xs ! i) m)"
proof (induction xs arbitrary: living h i)
  case Nil
  then show ?case by simp
next
  case (Cons ws rest)
  let ?b = "send_ok h ws m"
  let ?living = "if ?b then living @ [ws] else living"
  from Cons.prems(1)
  have run: "broadcast_loop send_ok m rest ?living (h @ [Send ws m ?b]) = (living', h')"
    by (simp split: if_splits)
  from broadcast_loop_run [OF run] obtain evs where
    h': "h' = (h @ [Send ws m ?b]) @ evs" by blast
  show ?case
  proof (cases i)
    case 0
    with h' show ?thesis by (simp add: nth_append)
  next
    case (Suc j)
    with Cons.prems(2) have "j < length rest" by simp
    from Cons.IH [OF run this] Suc show ?thesis by simp
  qed
qed

lemma broadcast_run:
  assumes "active w room = Some xs"
  shows "\<exists>evs. broadcast send_ok room m w =
            (Inr (), w\<lparr>active := (active w)(room \<mapsto> map peer (filter returned evs)),
                       history := history w @ evs\<rparr>)
          \<and> map peer evs = xs \<and> list_all (is_send_of m) evs"
proof -
  obtain living h where run: "broadcast_loop send_ok m xs [] (history w) = (living, h)"
    by (cases "broadcast_loop send_ok m xs [] (history w)")
  from broadcast_loop_run [OF run] obtain evs where
    evs: "h = history w @ evs" "map peer evs = xs" "list_all (is_send_of m) evs"
      "living = map peer (filter returned evs)" by auto
  have "broadcast send_ok room m w =
      (Inr (), w\<lparr>active := (active w)(room \<mapsto> living), history := h\<rparr>)"
    using assms run by (simp add: broadcast_def getitem_def)
  with evs show ?thesis by blast
qed

lemma broadcast_new_io:
  assumes "active w room = Some xs"
  obtains evs where
    "broadcast send_ok room m w =
       (Inr (), w\<lparr>active := (active w)(room \<mapsto> map peer (filter returned evs)),
                  history := history w @ evs\<rparr>)"
    "new_io w (snd (broadcast send_ok room m w)) = evs"
    "map peer evs = xs" "list_all (is_send_of m) evs"
proof -
  from broadcast_run [OF assms, of send_ok m] obtain evs where
    evs: "broadcast send_ok room m w =
       (Inr (), w\<lparr>active := (active w)(room \<mapsto> map peer (filter returned evs)),
                  history := history w @ evs\<rparr>)"
      "map peer evs = xs" "list_all (is_send_of m) evs" by blast
  then have "new_io w (snd (broadcast send_ok room m w)) = evs"
    by (simp add: new_io_def)
  with evs that show thesis by blast
qed

lemma send_event_cases:
  "is_send_of m e \<Longrightarrow> e = Send (peer e) m (returned e)"
  by (cases e) auto

lemma length_filter_returned:
  "length (filter returned evs) = length evs - length (filter (\<lambda>e. \<not> returned e) evs)"
  using sum_length_filter_compl [of returned evs] by simp

lemma returned_peer_iff:
  assumes "list_all (is_send_of m) evs"
  shows "ws \<in> set (map peer (filter returned evs)) \<longleftrightarrow> Send ws m True \<in> set evs"
proof
  assume "ws \<in> set (map peer (filter returned evs))"
  then obtain e where e: "e \<in> set evs" "returned e" "peer e = ws" by auto
  with assms have "is_send_of m e" by (simp add: list_all_iff)
  from send_event_cases [OF this] e show "Send ws m True \<in> set evs" by simp
next
  assume "Send ws m True \<in> set evs"
  then have "peer (Send ws m True) \<in> peer ` set (filter returned evs)"
    by (intro imageI) simp
  then show "ws \<in> set (map peer (filter returned evs))" by simp
qed

lemma failed_peer_evicted:
  assumes "distinct (map peer evs)" and "Send ws m False \<in> set evs"
  shows "ws \<notin> set (map peer (filter returned evs))"
proof
  assume "ws \<in> set (map peer (filter returned evs))"
  then obtain e where e: "e \<in> set evs" "returned e" "peer e = ws" by auto
  from assms(1) have "inj_on peer (set evs)" by (simp add: distinct_map)
  moreover have "peer e = peer (Send ws m False)" using e(3) by simp
  ultimately have "e = Send ws m False" using e(1) assms(2) by (rule inj_onD)
  with e(2) show False by simp
qed

lemma dropped_peer_failed:
  assumes "list_all (is_send_of m) evs" and "ws \<in> set (map peer evs)"
    and "ws \<notin> set (map peer (filter returned evs))"
  shows "Send ws m False \<in> set evs"
proof -
  from assms(2) obtain e where e: "e \<in> set evs" "peer e = ws" by auto
  with assms(3) have "\<not> returned e" by force
  moreover from assms(1) e(1) have "is_send_of m e" by (simp add: list_all_iff)
  ultimately show ?thesis using send_event_cases [of m e] e by simp
qed

section \<open>Broadcast to a room without sessions\<close>

text \<open>
  C6. A room with zero live sessions is a room that is not a key of the registry, or a key
  whose list is empty. Broadcasting any message to such a room returns without an
  exception and leaves the world as it was: the registry is the same and no send was
  attempted.
\<close>

theorem broadcast_empty_room_noop:
  "active w room = None \<or> active w room = Some [] \<Longrightarrow>
     broadcast send_ok room message w = (Inr (), w)"
proof (cases "active w room")
  case None
  then show ?thesis by (simp add: broadcast_def)
next
  case (Some xs)
  assume "active w room = None \<or> active w room = Some []"
  with Some have xs: "xs = []" by simp
  have "(active w)(room \<mapsto> []) = active w"
    using Some xs by (simp add: fun_upd_idem)
  with Some xs show ?thesis by (simp add: broadcast_def getitem_def)
qed

theorem broadcast_empty_room_noop_witness:
  "(active \<lparr>active = Map.empty, history = []\<rparr> ''AB12C9'' = None
      \<or> active \<lparr>active = Map.empty, history = []\<rparr> ''AB12C9'' = Some ([] :: nat list))
   \<and> broadcast (\<lambda>h ws m. True) ''AB12C9'' ''hi'' \<lparr>active = Map.empty, history = []\<rparr>
       = (Inr (), \<lparr>active = (Map.empty :: room \<rightharpoonup> nat list), history = []\<rparr>)"
  using broadcast_empty_room_noop
    [of "\<lparr>active = (Map.empty :: room \<rightharpoonup> nat list), history = ([] :: (nat, string) io list)\<rparr>"
        "''AB12C9''" "\<lambda>h ws m. True" "''hi''"]
  by simp

section \<open>The live set after a broadcast\<close>

text \<open>
  C1. Let a room have the list \<open>xs\<close> of \<open>N\<close> registered sessions. A broadcast sends the
  message once to each of them, in order. The list stored for the room afterwards consists
  of the sessions whose send returned, so its length is \<open>N - K\<close> where \<open>K\<close> is the number of
  sends that failed; a session is in the new list exactly when a send to it returned, and
  when no session is registered twice, every session whose send failed is gone.
\<close>

theorem broadcast_keeps_exactly_the_successful:
  assumes "active w room = Some xs"
  shows "map peer (new_io w (snd (broadcast send_ok room message w))) = xs
    \<and> list_all (is_send_of message) (new_io w (snd (broadcast send_ok room message w)))
    \<and> active (snd (broadcast send_ok room message w)) room
        = Some (map peer (filter returned (new_io w (snd (broadcast send_ok room message w)))))
    \<and> length (map peer (filter returned (new_io w (snd (broadcast send_ok room message w)))))
        = length xs
          - length (filter (\<lambda>e. \<not> returned e) (new_io w (snd (broadcast send_ok room message w))))
    \<and> (\<forall>ws. ws \<in> set (map peer (filter returned (new_io w (snd (broadcast send_ok room message w)))))
           \<longleftrightarrow> Send ws message True \<in> set (new_io w (snd (broadcast send_ok room message w))))
    \<and> (distinct xs \<longrightarrow>
         (\<forall>ws. Send ws message False \<in> set (new_io w (snd (broadcast send_ok room message w)))
            \<longrightarrow> ws \<notin> set (map peer (filter returned (new_io w (snd (broadcast send_ok room message w)))))))"
proof -
  from broadcast_new_io [OF assms, of send_ok message] obtain evs where
    b: "broadcast send_ok room message w =
       (Inr (), w\<lparr>active := (active w)(room \<mapsto> map peer (filter returned evs)),
                  history := history w @ evs\<rparr>)"
    and n: "new_io w (snd (broadcast send_ok room message w)) = evs"
    and p: "map peer evs = xs" and s: "list_all (is_send_of message) evs" by blast
  have 1: "active (snd (broadcast send_ok room message w)) room
      = Some (map peer (filter returned evs))"
    by (simp add: b)
  have 2: "length (map peer (filter returned evs))
      = length xs - length (filter (\<lambda>e. \<not> returned e) evs)"
    using length_filter_returned [of evs] p by (metis length_map)
  have 3: "\<forall>ws. ws \<in> set (map peer (filter returned evs)) \<longleftrightarrow> Send ws message True \<in> set evs"
    using returned_peer_iff [OF s] by blast
  have 4: "distinct xs \<longrightarrow>
      (\<forall>ws. Send ws message False \<in> set evs \<longrightarrow> ws \<notin> set (map peer (filter returned evs)))"
    using failed_peer_evicted [of evs _ message] p by blast
  show ?thesis
    unfolding n using p s 1 2 3 4 by blast
qed

theorem broadcast_keeps_exactly_the_successful_witness:
  "active \<lparr>active = [''AB12C9'' \<mapsto> [1, 2, 3 :: nat]], history = []\<rparr> ''AB12C9''
      = Some [1, 2, 3]
   \<and> active (snd (broadcast (\<lambda>h ws m. ws \<noteq> 2) ''AB12C9'' ''hi''
         \<lparr>active = [''AB12C9'' \<mapsto> [1, 2, 3 :: nat]], history = []\<rparr>)) ''AB12C9''
      = Some [1, 3]
   \<and> new_io \<lparr>active = [''AB12C9'' \<mapsto> [1, 2, 3 :: nat]], history = []\<rparr>
        (snd (broadcast (\<lambda>h ws m. ws \<noteq> 2) ''AB12C9'' ''hi''
         \<lparr>active = [''AB12C9'' \<mapsto> [1, 2, 3 :: nat]], history = []\<rparr>))
      = [Send 1 ''hi'' True, Send 2 ''hi'' False, Send 3 ''hi'' True]"
proof -
  have h: "active \<lparr>active = [''AB12C9'' \<mapsto> [1, 2, 3 :: nat]],
                   history = ([] :: (nat, string) io list)\<rparr> ''AB12C9'' = Some [1, 2, 3]"
    by simp
  from broadcast_keeps_exactly_the_successful [OF h, of "\<lambda>h ws m. ws \<noteq> 2" "''hi''"]
  show ?thesis
    by (simp add: broadcast_def getitem_def new_io_def)
qed

section \<open>A failed send stays with its peer\<close>

lemma broadcast_never_raises: "fst (broadcast send_ok room m w) = Inr ()"
  by (cases "active w room")
     (auto simp: broadcast_def getitem_def split: prod.splits)

lemma broadcast_frame:
  "r \<noteq> room \<Longrightarrow> active (snd (broadcast send_ok room m w)) r = active w r"
  by (cases "active w room")
     (auto simp: broadcast_def getitem_def split: prod.splits)

lemma broadcast_absent: "active w room = None \<Longrightarrow> broadcast send_ok room m w = (Inr (), w)"
  by (simp add: broadcast_def)

lemma new_io_same: "new_io w w = []"
  by (simp add: new_io_def)

lemma broadcast_outcomes:
  assumes "active w room = Some xs" and "i < length xs"
  shows "new_io w (snd (broadcast send_ok room m w)) ! i
     = Send (xs ! i) m
         (send_ok (history w @ take i (new_io w (snd (broadcast send_ok room m w)))) (xs ! i) m)"
proof -
  obtain living h where run: "broadcast_loop send_ok m xs [] (history w) = (living, h)"
    by (cases "broadcast_loop send_ok m xs [] (history w)")
  from broadcast_loop_run [OF run] obtain evs where
    evs: "h = history w @ evs" "map peer evs = xs" by auto
  then have len: "length evs = length xs" by (metis length_map)
  have b: "snd (broadcast send_ok room m w)
      = w\<lparr>active := (active w)(room \<mapsto> living), history := h\<rparr>"
    using assms(1) run by (simp add: broadcast_def getitem_def)
  have n: "new_io w (snd (broadcast send_ok room m w)) = evs"
    by (simp add: b new_io_def evs)
  from broadcast_loop_outcomes [OF run assms(2)]
  have "h ! (length (history w) + i)
      = Send (xs ! i) m (send_ok (take (length (history w) + i) h) (xs ! i) m)" .
  then show ?thesis
    unfolding n by (simp add: evs(1))
qed


lemma receive_loop_data:
  "receive_loop send_ok room ws (Data d # rest) w
     = receive_loop send_ok room ws rest (snd (broadcast send_ok room d w))"
proof -
  have b: "broadcast send_ok room d w = (Inr (), snd (broadcast send_ok room d w))"
    using broadcast_never_raises [of send_ok room d w] by (simp add: prod_eq_iff)
  show ?thesis by (subst receive_loop.simps, subst b) simp
qed

lemma broadcast_history:
  "history (snd (broadcast send_ok room m w))
     = history w @ new_io w (snd (broadcast send_ok room m w))"
proof (cases "active w room")
  case None
  then show ?thesis by (simp add: broadcast_absent new_io_same)
next
  case (Some xs)
  from broadcast_new_io [OF Some, of send_ok m] obtain evs where
    b: "broadcast send_ok room m w =
       (Inr (), w\<lparr>active := (active w)(room \<mapsto> map peer (filter returned evs)),
                  history := history w @ evs\<rparr>)"
    and n: "new_io w (snd (broadcast send_ok room m w)) = evs" by blast
  show ?thesis unfolding n by (simp add: b)
qed

text \<open>
  C3, as the code has it. A broadcast never raises, whatever the sends do, and it changes
  the list of no other room. When the room has the list \<open>xs\<close>, one send is made for every
  position of \<open>xs\<close>, also after a send that failed, and the outcome of the send at
  position \<open>i\<close> is the one the transport gives for that peer at that moment. The room's new
  list consists of exactly the sessions whose send returned: an entry whose send failed is
  removed from the registry, and nothing else happens to that session. It is not closed,
  and its handler goes on like any other: the next message a handler receives is
  broadcast to the room and the handler continues.
\<close>

theorem broadcast_evicts_without_closing:
  "fst (broadcast send_ok room message w) = Inr ()
   \<and> history (snd (broadcast send_ok room message w))
       = history w @ new_io w (snd (broadcast send_ok room message w))
   \<and> (\<forall>r. r \<noteq> room \<longrightarrow> active (snd (broadcast send_ok room message w)) r = active w r)
   \<and> (\<forall>xs. active w room = Some xs \<longrightarrow>
        length (new_io w (snd (broadcast send_ok room message w))) = length xs
      \<and> (\<forall>i<length xs.
           new_io w (snd (broadcast send_ok room message w)) ! i
             = Send (xs ! i) message
                 (send_ok (history w @ take i (new_io w (snd (broadcast send_ok room message w))))
                    (xs ! i) message))
      \<and> active (snd (broadcast send_ok room message w)) room
          = Some (map peer (filter returned (new_io w (snd (broadcast send_ok room message w)))))
      \<and> (\<forall>ws. ws \<in> set (map peer (filter returned
                    (new_io w (snd (broadcast send_ok room message w)))))
             \<longleftrightarrow> Send ws message True \<in> set (new_io w (snd (broadcast send_ok room message w)))))
   \<and> (\<forall>ws d rest. receive_loop send_ok room ws (Data d # rest) w
         = receive_loop send_ok room ws rest (snd (broadcast send_ok room d w)))"
proof -
  have raise: "fst (broadcast send_ok room message w) = Inr ()"
    by (rule broadcast_never_raises)
  have hist: "history (snd (broadcast send_ok room message w))
       = history w @ new_io w (snd (broadcast send_ok room message w))"
    by (rule broadcast_history)
  have frame: "\<forall>r. r \<noteq> room \<longrightarrow> active (snd (broadcast send_ok room message w)) r = active w r"
    by (simp add: broadcast_frame)
  have handler: "\<forall>ws d rest. receive_loop send_ok room ws (Data d # rest) w
         = receive_loop send_ok room ws rest (snd (broadcast send_ok room d w))"
    by (intro allI) (rule receive_loop_data)
  have sends: "\<forall>xs. active w room = Some xs \<longrightarrow>
        length (new_io w (snd (broadcast send_ok room message w))) = length xs
      \<and> (\<forall>i<length xs.
           new_io w (snd (broadcast send_ok room message w)) ! i
             = Send (xs ! i) message
                 (send_ok (history w @ take i (new_io w (snd (broadcast send_ok room message w))))
                    (xs ! i) message))
      \<and> active (snd (broadcast send_ok room message w)) room
          = Some (map peer (filter returned (new_io w (snd (broadcast send_ok room message w)))))
      \<and> (\<forall>ws. ws \<in> set (map peer (filter returned
                    (new_io w (snd (broadcast send_ok room message w)))))
             \<longleftrightarrow> Send ws message True \<in> set (new_io w (snd (broadcast send_ok room message w))))"
  proof (intro allI impI)
    fix xs assume a: "active w room = Some xs"
    from broadcast_new_io [OF a, of send_ok message] obtain evs where
      b: "broadcast send_ok room message w =
         (Inr (), w\<lparr>active := (active w)(room \<mapsto> map peer (filter returned evs)),
                    history := history w @ evs\<rparr>)"
      and n: "new_io w (snd (broadcast send_ok room message w)) = evs"
      and p: "map peer evs = xs" and s: "list_all (is_send_of message) evs" by blast
    have 1: "length (new_io w (snd (broadcast send_ok room message w))) = length xs"
      unfolding n using p by (metis length_map)
    have 2: "\<forall>i<length xs.
             new_io w (snd (broadcast send_ok room message w)) ! i
               = Send (xs ! i) message
                   (send_ok (history w @ take i (new_io w (snd (broadcast send_ok room message w))))
                      (xs ! i) message)"
      using broadcast_outcomes [OF a, of _ send_ok message] by (intro allI impI)
    have 3: "active (snd (broadcast send_ok room message w)) room
        = Some (map peer (filter returned (new_io w (snd (broadcast send_ok room message w)))))"
      unfolding n by (simp add: b)
    have 4: "\<forall>ws. ws \<in> set (map peer (filter returned
                    (new_io w (snd (broadcast send_ok room message w)))))
             \<longleftrightarrow> Send ws message True \<in> set (new_io w (snd (broadcast send_ok room message w)))"
      unfolding n using returned_peer_iff [OF s] by (intro allI)
    from 1 2 3 4 show "length (new_io w (snd (broadcast send_ok room message w))) = length xs
      \<and> (\<forall>i<length xs.
           new_io w (snd (broadcast send_ok room message w)) ! i
             = Send (xs ! i) message
                 (send_ok (history w @ take i (new_io w (snd (broadcast send_ok room message w))))
                    (xs ! i) message))
      \<and> active (snd (broadcast send_ok room message w)) room
          = Some (map peer (filter returned (new_io w (snd (broadcast send_ok room message w)))))
      \<and> (\<forall>ws. ws \<in> set (map peer (filter returned
                    (new_io w (snd (broadcast send_ok room message w)))))
             \<longleftrightarrow> Send ws message True \<in> set (new_io w (snd (broadcast send_ok room message w))))"
      by (intro conjI)
  qed
  from raise hist frame sends handler show ?thesis by (intro conjI)
qed

theorem broadcast_evicts_without_closing_witness:
  "active \<lparr>active = [''AB12C9'' \<mapsto> [1, 2, 3 :: nat]], history = ([] :: (nat, string) io list)\<rparr> ''AB12C9'' = Some [1, 2, 3]
   \<and> broadcast (\<lambda>h ws m. ws \<noteq> 2) ''AB12C9'' ''hi''
        \<lparr>active = [''AB12C9'' \<mapsto> [1, 2, 3 :: nat]], history = ([] :: (nat, string) io list)\<rparr>
      = (Inr (), \<lparr>active = [''AB12C9'' \<mapsto> [1, 3]],
                   history = [Send 1 ''hi'' True, Send 2 ''hi'' False, Send 3 ''hi'' True]\<rparr>)
   \<and> new_io \<lparr>active = [''AB12C9'' \<mapsto> [1, 2, 3 :: nat]], history = ([] :: (nat, string) io list)\<rparr>
        (snd (broadcast (\<lambda>h ws m. ws \<noteq> 2) ''AB12C9'' ''hi''
          \<lparr>active = [''AB12C9'' \<mapsto> [1, 2, 3 :: nat]], history = ([] :: (nat, string) io list)\<rparr>)) ! 2
      = Send 3 ''hi'' True"
  using broadcast_evicts_without_closing [of "\<lambda>h ws m. ws \<noteq> 2" "''AB12C9''" "''hi''"
      "\<lparr>active = [''AB12C9'' \<mapsto> [1, 2, 3 :: nat]], history = ([] :: (nat, string) io list)\<rparr>"]
  by (simp add: broadcast_def getitem_def new_io_def)

text \<open>
  C3, as stated, fails where it says that the failing session is terminated. In room
  AB12C9 with the sessions 1 and 2 the send to session 2 fails, and session 2 is removed
  from the list. Its handler still runs: the message \<open>yo\<close> that it receives next is
  broadcast and reaches session 1, and the handler waits for the message after that.
\<close>

theorem failed_session_keeps_relaying:
  "broadcast (severed 2) ''AB12C9'' ''hi''
      \<lparr>active = [''AB12C9'' \<mapsto> [1, 2 :: nat]], history = ([] :: (nat, string) io list)\<rparr>
     = (Inr (), \<lparr>active = [''AB12C9'' \<mapsto> [1]],
                  history = [Send 1 ''hi'' True, Send 2 ''hi'' False]\<rparr>)
   \<and> receive_loop (severed 2) ''AB12C9'' 2 [Data ''yo'']
        \<lparr>active = [''AB12C9'' \<mapsto> [1 :: nat]],
          history = [Send 1 ''hi'' True, Send 2 ''hi'' False]\<rparr>
     = (Inr (), \<lparr>active = [''AB12C9'' \<mapsto> [1]],
                  history = [Send 1 ''hi'' True, Send 2 ''hi'' False, Send 1 ''yo'' True]\<rparr>)"
  by (simp add: broadcast_def getitem_def severed_def)

section \<open>Rooms are separate\<close>

lemma broadcast_targets:
  assumes "e \<in> set (new_io w (snd (broadcast send_ok a m w)))"
  shows "\<exists>xs. active w a = Some xs \<and> peer e \<in> set xs \<and> is_send_of m e"
proof (cases "active w a")
  case None
  with assms show ?thesis by (simp add: broadcast_absent new_io_same)
next
  case (Some xs)
  from broadcast_new_io [OF Some, of send_ok m] obtain evs where
    n: "new_io w (snd (broadcast send_ok a m w)) = evs"
    and p: "map peer evs = xs" and s: "list_all (is_send_of m) evs" by blast
  from assms n have e: "e \<in> set evs" by simp
  then have "peer e \<in> set (map peer evs)" by simp
  with p have "peer e \<in> set xs" by simp
  moreover from s e have "is_send_of m e" by (simp add: list_all_iff)
  ultimately show ?thesis using Some by simp
qed


text \<open>
  C9. A broadcast to room \<open>a\<close> changes the list of no other room. Every send it makes goes
  to a session of the list of \<open>a\<close>; so a session registered in another room \<open>b\<close>, and not
  in \<open>a\<close> as well, is sent nothing.
\<close>

theorem broadcast_reaches_only_its_room:
  "(\<forall>b. b \<noteq> a \<longrightarrow> active (snd (broadcast send_ok a message w)) b = active w b)
   \<and> (\<forall>e\<in>set (new_io w (snd (broadcast send_ok a message w))).
         \<exists>xs. active w a = Some xs \<and> peer e \<in> set xs)
   \<and> (\<forall>b ys ws. b \<noteq> a \<and> active w b = Some ys \<and> ws \<in> set ys
          \<and> (\<forall>xs. active w a = Some xs \<longrightarrow> ws \<notin> set xs)
        \<longrightarrow> (\<forall>ok. Send ws message ok \<notin> set (new_io w (snd (broadcast send_ok a message w)))))"
proof -
  have frame: "\<forall>b. b \<noteq> a \<longrightarrow> active (snd (broadcast send_ok a message w)) b = active w b"
    by (simp add: broadcast_frame)
  have targets: "\<forall>e\<in>set (new_io w (snd (broadcast send_ok a message w))).
      \<exists>xs. active w a = Some xs \<and> peer e \<in> set xs"
  proof
    fix e assume "e \<in> set (new_io w (snd (broadcast send_ok a message w)))"
    from broadcast_targets [OF this]
    show "\<exists>xs. active w a = Some xs \<and> peer e \<in> set xs" by (elim exE conjE) simp
  qed
  have others: "\<forall>ok. Send ws message ok \<notin> set (new_io w (snd (broadcast send_ok a message w)))"
    if "\<forall>xs. active w a = Some xs \<longrightarrow> ws \<notin> set xs" for ws
  proof (intro allI notI)
    fix ok assume "Send ws message ok \<in> set (new_io w (snd (broadcast send_ok a message w)))"
    from broadcast_targets [OF this] obtain xs where "active w a = Some xs" "ws \<in> set xs"
      by (elim exE conjE) simp
    with that show False by simp
  qed
  from frame targets others show ?thesis by (intro conjI allI impI) simp_all
qed

theorem broadcast_reaches_only_its_room_witness:
  "''BBBBBB'' \<noteq> ''AAAAAA'' \<and> active \<lparr>active = [''AAAAAA'' \<mapsto> [1 :: nat], ''BBBBBB'' \<mapsto> [2]], history = ([] :: (nat, string) io list)\<rparr> ''BBBBBB'' = Some [2] \<and> active \<lparr>active = [''AAAAAA'' \<mapsto> [1 :: nat], ''BBBBBB'' \<mapsto> [2]], history = ([] :: (nat, string) io list)\<rparr> ''AAAAAA'' = Some [1]
   \<and> active (snd (broadcast (\<lambda>h ws m. True) ''AAAAAA'' ''hi'' \<lparr>active = [''AAAAAA'' \<mapsto> [1 :: nat], ''BBBBBB'' \<mapsto> [2]], history = ([] :: (nat, string) io list)\<rparr>)) ''BBBBBB'' = Some [2]
   \<and> new_io \<lparr>active = [''AAAAAA'' \<mapsto> [1 :: nat], ''BBBBBB'' \<mapsto> [2]], history = ([] :: (nat, string) io list)\<rparr> (snd (broadcast (\<lambda>h ws m. True) ''AAAAAA'' ''hi'' \<lparr>active = [''AAAAAA'' \<mapsto> [1 :: nat], ''BBBBBB'' \<mapsto> [2]], history = ([] :: (nat, string) io list)\<rparr>)) = [Send 1 ''hi'' True]
   \<and> Send 2 ''hi'' True \<notin> set (new_io \<lparr>active = [''AAAAAA'' \<mapsto> [1 :: nat], ''BBBBBB'' \<mapsto> [2]], history = ([] :: (nat, string) io list)\<rparr> (snd (broadcast (\<lambda>h ws m. True) ''AAAAAA'' ''hi'' \<lparr>active = [''AAAAAA'' \<mapsto> [1 :: nat], ''BBBBBB'' \<mapsto> [2]], history = ([] :: (nat, string) io list)\<rparr>)))"
  using broadcast_reaches_only_its_room [of "''AAAAAA''" "\<lambda>h ws m. True" "''hi''" "\<lparr>active = [''AAAAAA'' \<mapsto> [1 :: nat], ''BBBBBB'' \<mapsto> [2]], history = ([] :: (nat, string) io list)\<rparr>"]
  by (simp add: broadcast_def getitem_def new_io_def)

section \<open>Unregistering\<close>

lemma count_list_remove1:
  "count_list (remove1 x xs) x = count_list xs x - 1"
  by (induction xs) auto

lemma count_list_remove1_other:
  "y \<noteq> x \<Longrightarrow> count_list (remove1 x xs) y = count_list xs y"
  by (induction xs) auto

lemma disconnect_absent_room:
  "active w room = None \<Longrightarrow> disconnect room ws w = (Inr (), w)"
  by (simp add: disconnect_def)

lemma disconnect_absent_session:
  "active w room = Some xs \<Longrightarrow> ws \<notin> set xs \<Longrightarrow> disconnect room ws w = (Inr (), w)"
  by (simp add: disconnect_def getitem_def)

lemma disconnect_last:
  "active w room = Some xs \<Longrightarrow> ws \<in> set xs \<Longrightarrow> remove1 ws xs = [] \<Longrightarrow>
     disconnect room ws w = (Inr (), w\<lparr>active := (active w)(room := None)\<rparr>)"
  by (simp add: disconnect_def getitem_def list_remove_def delitem_def)

lemma disconnect_one_of_many:
  "active w room = Some xs \<Longrightarrow> ws \<in> set xs \<Longrightarrow> remove1 ws xs \<noteq> [] \<Longrightarrow>
     disconnect room ws w = (Inr (), w\<lparr>active := (active w)(room \<mapsto> remove1 ws xs)\<rparr>)"
  by (simp add: disconnect_def getitem_def list_remove_def)


lemma disconnect_frame:
  "r \<noteq> room \<Longrightarrow> active (snd (disconnect room ws w)) r = active w r"
proof (cases "active w room")
  case None
  then show ?thesis by (simp add: disconnect_absent_room)
next
  case (Some xs)
  assume r: "r \<noteq> room"
  show ?thesis
  proof (cases "ws \<in> set xs")
    case False
    with Some show ?thesis by (simp add: disconnect_absent_session)
  next
    case True
    with Some r show ?thesis
      by (cases "remove1 ws xs = []") (simp_all add: disconnect_last disconnect_one_of_many)
  qed
qed

lemma disconnect_history: "history (snd (disconnect room ws w)) = history w"
proof (cases "active w room")
  case None
  then show ?thesis by (simp add: disconnect_absent_room)
next
  case (Some xs)
  show ?thesis
  proof (cases "ws \<in> set xs")
    case False
    with Some show ?thesis by (simp add: disconnect_absent_session)
  next
    case True
    with Some show ?thesis
      by (cases "remove1 ws xs = []") (simp_all add: disconnect_last disconnect_one_of_many)
  qed
qed


lemma occurrences_disconnect:
  "occurrences room ws (snd (disconnect room ws w)) = occurrences room ws w - 1"
proof (cases "active w room")
  case None
  then show ?thesis by (simp add: disconnect_absent_room occurrences_def)
next
  case (Some xs)
  show ?thesis
  proof (cases "ws \<in> set xs")
    case False
    with Some show ?thesis
      by (simp add: disconnect_absent_session occurrences_def count_list_0_iff)
  next
    case True
    show ?thesis
    proof (cases "remove1 ws xs = []")
      case True
      then have "count_list (remove1 ws xs) ws = 0" by simp
      then have "count_list xs ws - 1 = 0" by (simp only: count_list_remove1)
      with Some \<open>ws \<in> set xs\<close> True show ?thesis
        by (simp add: disconnect_last occurrences_def)
    next
      case False
      with Some True show ?thesis
        by (simp add: disconnect_one_of_many occurrences_def count_list_remove1)
    qed
  qed
qed






section \<open>Registering the same websocket twice\<close>

lemma connect_accepted:
  "accept_ok (history w) ws \<Longrightarrow>
     connect accept_ok room ws w =
       (Inr (), w\<lparr>active := (active w)(room \<mapsto>
                     (case active w room of None \<Rightarrow> [] | Some xs \<Rightarrow> xs) @ [ws]),
                  history := history w @ [Accept ws True]\<rparr>)"
  by (simp add: connect_def)

lemma connect_refused:
  "\<not> accept_ok (history w) ws \<Longrightarrow>
     connect accept_ok room ws w =
       (Inl HandshakeError, w\<lparr>history := history w @ [Accept ws False]\<rparr>)"
  by (simp add: connect_def)

lemma connect_frame:
  "r \<noteq> room \<Longrightarrow> active (snd (connect accept_ok room ws w)) r = active w r"
  by (simp add: connect_def)

lemma occurrences_connect:
  "accept_ok (history w) ws \<Longrightarrow>
     occurrences room ws (snd (connect accept_ok room ws w)) = occurrences room ws w + 1"
  by (cases "active w room") (simp_all add: connect_accepted occurrences_def)

lemma occurrences_positive:
  "0 < occurrences room ws w \<Longrightarrow> \<exists>ys. active w room = Some ys \<and> ws \<in> set ys"
proof (cases "active w room")
  case None
  assume "0 < occurrences room ws w"
  with None show ?thesis by (simp add: occurrences_def)
next
  case (Some ys)
  assume "0 < occurrences room ws w"
  with Some have "count_list ys ws \<noteq> 0" by (simp add: occurrences_def)
  then have "ws \<in> set ys" by (simp add: count_list_0_iff)
  with Some show ?thesis by simp
qed

lemma broadcast_sends_to_listed:
  assumes "active w room = Some ys" and "ws \<in> set ys"
  shows "\<exists>ok. Send ws m ok \<in> set (new_io w (snd (broadcast send_ok room m w)))"
proof -
  from broadcast_new_io [OF assms(1), of send_ok m] obtain evs where
    n: "new_io w (snd (broadcast send_ok room m w)) = evs"
    and p: "map peer evs = ys" and s: "list_all (is_send_of m) evs" by blast
  from assms(2) p have "ws \<in> set (map peer evs)" by simp
  then obtain e where e: "e \<in> set evs" "peer e = ws" by auto
  with s have "is_send_of m e" by (simp add: list_all_iff)
  from send_event_cases [OF this] e have "Send ws m (returned e) \<in> set evs" by simp
  with n show ?thesis by auto
qed


text \<open>
  C10. When the handshake returns both times, two calls of \<open>connect\<close> with the same
  websocket and room append it twice: the room's list is the old list followed by the
  websocket two times. One call of \<open>disconnect\<close> then removes one occurrence only, so the
  websocket is still in the room's list and the next broadcast to the room sends to it.
\<close>

theorem connect_twice_lists_twice:
  assumes "accept_ok (history w) ws"
    and "accept_ok (history w @ [Accept ws True]) ws"
  shows
    "active (snd (connect accept_ok room ws (snd (connect accept_ok room ws w)))) room
       = Some ((case active w room of None \<Rightarrow> [] | Some xs \<Rightarrow> xs) @ [ws, ws])
     \<and> occurrences room ws (snd (connect accept_ok room ws (snd (connect accept_ok room ws w))))
         = occurrences room ws w + 2
     \<and> occurrences room ws
          (snd (disconnect room ws
             (snd (connect accept_ok room ws (snd (connect accept_ok room ws w))))))
         = occurrences room ws w + 1
     \<and> (\<exists>ys. active
          (snd (disconnect room ws
             (snd (connect accept_ok room ws (snd (connect accept_ok room ws w)))))) room = Some ys
          \<and> ws \<in> set ys)
     \<and> (\<exists>ok. Send ws message ok \<in> set
          (new_io
             (snd (disconnect room ws
                (snd (connect accept_ok room ws (snd (connect accept_ok room ws w))))))
             (snd (broadcast send_ok room message
                (snd (disconnect room ws
                   (snd (connect accept_ok room ws (snd (connect accept_ok room ws w))))))))))"
proof -
  let ?w1 = "snd (connect accept_ok room ws w)"
  let ?w2 = "snd (connect accept_ok room ws ?w1)"
  let ?w3 = "snd (disconnect room ws ?w2)"
  have h1: "history ?w1 = history w @ [Accept ws True]"
    using assms(1) by (simp add: connect_accepted)
  with assms(2) have a2: "accept_ok (history ?w1) ws" by simp
  have 1: "active ?w2 room = Some ((case active w room of None \<Rightarrow> [] | Some xs \<Rightarrow> xs) @ [ws, ws])"
    using assms(1) a2 by (simp add: connect_accepted)
  have 2: "occurrences room ws ?w2 = occurrences room ws w + 2"
    using occurrences_connect [of accept_ok w ws room]
      occurrences_connect [of accept_ok "snd (connect accept_ok room ws w)" ws room] assms(1) a2
    by simp
  have 3: "occurrences room ws ?w3 = occurrences room ws w + 1"
    using 2 by (simp add: occurrences_disconnect)
  then have "0 < occurrences room ws ?w3" by simp
  from occurrences_positive [OF this]
  have 4: "\<exists>ys. active ?w3 room = Some ys \<and> ws \<in> set ys" .
  then obtain ys where "active ?w3 room = Some ys" "ws \<in> set ys" by blast
  from broadcast_sends_to_listed [OF this]
  have 5: "\<exists>ok. Send ws message ok \<in> set (new_io ?w3 (snd (broadcast send_ok room message ?w3)))" .
  from 1 2 3 4 5 show ?thesis by (intro conjI)
qed


theorem connect_twice_lists_twice_witness:
  "active (snd (connect (\<lambda>h ws. True) ''AB12C9'' (1 :: nat)
       (snd (connect (\<lambda>h ws. True) ''AB12C9'' 1 (initial :: (nat, string) world))))) ''AB12C9''
     = Some [1, 1]
   \<and> active (snd (disconnect ''AB12C9'' 1
        (snd (connect (\<lambda>h ws. True) ''AB12C9'' (1 :: nat)
           (snd (connect (\<lambda>h ws. True) ''AB12C9'' 1 (initial :: (nat, string) world))))))) ''AB12C9''
     = Some [1]"
proof -
  have a: "(\<lambda>h ws. True) (history (initial :: (nat, string) world)) (1 :: nat)" by simp
  have b: "(\<lambda>h ws. True) (history (initial :: (nat, string) world) @ [Accept 1 True]) (1 :: nat)"
    by simp
  from connect_twice_lists_twice
    [of "\<lambda>h ws. True" "initial :: (nat, string) world" 1 "''AB12C9''" "''hi''" "\<lambda>h ws m. True"] a b
  show ?thesis
    by (simp add: connect_def disconnect_def getitem_def list_remove_def initial_def)
qed


section \<open>Rooms with an empty list\<close>

lemma no_empty_room_connect:
  "no_empty_room w \<Longrightarrow> no_empty_room (snd (connect accept_ok room ws w))"
  by (simp add: no_empty_room_def connect_def)

lemma no_empty_room_disconnect:
  assumes "no_empty_room w"
  shows "no_empty_room (snd (disconnect room ws w))"
proof (cases "active w room")
  case None
  with assms show ?thesis by (simp add: disconnect_absent_room)
next
  case (Some xs)
  show ?thesis
  proof (cases "ws \<in> set xs")
    case False
    with Some assms show ?thesis by (simp add: disconnect_absent_session)
  next
    case True
    with Some assms show ?thesis
      by (cases "remove1 ws xs = []")
         (simp_all add: disconnect_last disconnect_one_of_many no_empty_room_def)
  qed
qed

lemma no_empty_room_without_broadcast:
  "no_empty_room w \<Longrightarrow> \<not> list_ex is_broadcast cs \<Longrightarrow> no_empty_room (run accept_ok send_ok cs w)"
proof (induction cs arbitrary: w)
  case Nil
  then show ?case by simp
next
  case (Cons c cs)
  from Cons.prems(2) have nb: "\<not> is_broadcast c" and rest: "\<not> list_ex is_broadcast cs"
    by simp_all
  have "no_empty_room (perform accept_ok send_ok c w)"
    using nb Cons.prems(1)
    by (cases c) (simp_all add: no_empty_room_connect no_empty_room_disconnect)
  from Cons.IH [OF this rest] show ?case by simp
qed

text \<open>
  C2. The calls \<open>connect\<close> and \<open>disconnect\<close> keep every key of the registry on a non-empty
  list (\<open>no_empty_room_without_broadcast\<close>). A broadcast in which every send fails does
  not: after one session has joined room AB12C9 and a broadcast to that room has failed
  to reach it, the room is still a key and its list is empty.
\<close>

theorem broadcast_leaves_empty_list:
  "active (run (\<lambda>h ws. True) (\<lambda>h ws m. False)
      [Connect ''AB12C9'' (1 :: nat), Broadcast ''AB12C9'' ''hi''] initial) ''AB12C9'' = Some []
   \<and> \<not> no_empty_room (run (\<lambda>h ws. True) (\<lambda>h ws m. False)
      [Connect ''AB12C9'' (1 :: nat), Broadcast ''AB12C9'' ''hi''] initial)"
proof -
  have "active (run (\<lambda>h ws. True) (\<lambda>h ws m. False)
      [Connect ''AB12C9'' (1 :: nat), Broadcast ''AB12C9'' ''hi''] initial) ''AB12C9'' = Some []"
    by (simp add: initial_def connect_def broadcast_def getitem_def)
  then show ?thesis unfolding no_empty_room_def by blast
qed


section \<open>Room codes and letter case\<close>

lemma ascii_upper_lower:
  assumes "is_lower c"
  shows "(of_char (ascii_upper c) :: nat) = of_char c - 32"
proof -
  from assms have "(of_char c :: nat) - 32 < 256" unfolding is_lower_def by arith
  then have "((of_char c :: nat) - 32) mod 256 = of_char c - 32" by (rule mod_less)
  with assms show ?thesis by (simp add: ascii_upper_def)
qed

lemma ascii_upper_other: "\<not> is_lower c \<Longrightarrow> ascii_upper c = c"
  by (simp add: ascii_upper_def)

lemma ascii_upper_not_lower: "\<not> is_lower (ascii_upper c)"
proof (cases "is_lower c")
  case True
  then have "(of_char (ascii_upper c) :: nat) = of_char c - 32" by (rule ascii_upper_lower)
  moreover from True have "(of_char c :: nat) \<le> 122" by (simp add: is_lower_def)
  ultimately have "(of_char (ascii_upper c) :: nat) \<le> 90" by arith
  then show ?thesis unfolding is_lower_def by arith
next
  case False
  then show ?thesis by (simp add: ascii_upper_other)
qed

lemma ascii_upper_idem: "ascii_upper (ascii_upper c) = ascii_upper c"
  by (rule ascii_upper_other) (rule ascii_upper_not_lower)

lemma ascii_upper_is_ascii: "is_ascii c \<Longrightarrow> is_ascii (ascii_upper c)"
proof (cases "is_lower c")
  case True
  assume "is_ascii c"
  from True have "(of_char (ascii_upper c) :: nat) = of_char c - 32" by (rule ascii_upper_lower)
  moreover from \<open>is_ascii c\<close> have "(of_char c :: nat) < 128" by (simp add: is_ascii_def)
  ultimately have "(of_char (ascii_upper c) :: nat) < 128" by arith
  then show ?thesis by (simp add: is_ascii_def)
next
  case False
  assume "is_ascii c"
  with False show ?thesis by (simp add: ascii_upper_other)
qed

lemma same_letter_ascii_upper: "same_letter c (ascii_upper c)"
proof (cases "is_lower c")
  case True
  then have u: "(of_char (ascii_upper c) :: nat) = of_char c - 32" by (rule ascii_upper_lower)
  from True have c: "97 \<le> (of_char c :: nat)" "(of_char c :: nat) \<le> 122"
    by (simp_all add: is_lower_def)
  from c have "is_letter c" by (simp add: is_letter_def)
  moreover from u c have "is_letter (ascii_upper c)" unfolding is_letter_def Let_def by arith
  moreover from u c have "(of_char c :: nat) = of_char (ascii_upper c) + 32" by arith
  ultimately show ?thesis by (simp add: same_letter_def)
next
  case False
  then show ?thesis by (simp add: ascii_upper_other same_letter_def)
qed

lemma ascii_upper_same_letter:
  assumes "same_letter a b"
  shows "ascii_upper a = ascii_upper b"
proof (cases "a = b")
  case True
  then show ?thesis by simp
next
  case False
  with assms have la: "is_letter a" and lb: "is_letter b"
    and d: "(of_char a :: nat) = of_char b + 32 \<or> (of_char b :: nat) = of_char a + 32"
    by (simp_all add: same_letter_def)
  have up: "ascii_upper x = ascii_upper y"
    if lx: "is_letter x" and ly: "is_letter y" and e: "(of_char x :: nat) = of_char y + 32"
    for x y
  proof -
    from lx ly e have x: "is_lower x" and y: "\<not> is_lower y"
      by (auto simp: is_letter_def is_lower_def Let_def)
    from x e have "(of_char (ascii_upper x) :: nat) = of_char y" by (simp add: ascii_upper_lower)
    then have "ascii_upper x = y" by simp
    moreover from y have "ascii_upper y = y" by (rule ascii_upper_other)
    ultimately show ?thesis by simp
  qed
  from d show ?thesis
  proof
    assume "(of_char a :: nat) = of_char b + 32"
    with la lb show ?thesis by (rule up)
  next
    assume "(of_char b :: nat) = of_char a + 32"
    with lb la have "ascii_upper b = ascii_upper a" by (rule up)
    then show ?thesis by simp
  qed
qed

lemma same_letter_is_ascii: "same_letter a b \<Longrightarrow> is_ascii a \<Longrightarrow> is_ascii b"
  by (auto simp: same_letter_def is_letter_def is_ascii_def Let_def)

lemma differ_only_in_case_ascii:
  "differ_only_in_case s t \<Longrightarrow> list_all is_ascii s \<Longrightarrow> list_all is_ascii t"
  unfolding differ_only_in_case_def
  by (induction s t rule: list_all2_induct) (auto dest: same_letter_is_ascii)

lemma differ_only_in_case_map:
  "differ_only_in_case s t \<Longrightarrow> map ascii_upper s = map ascii_upper t"
  unfolding differ_only_in_case_def
  by (induction s t rule: list_all2_induct) (simp_all add: ascii_upper_same_letter)

lemma upper_differ_only_in_case:
  assumes "list_all is_ascii s" and "differ_only_in_case s t"
  shows "upper uni s = upper uni t"
proof -
  from assms have "list_all is_ascii t" by (simp add: differ_only_in_case_ascii)
  with assms show ?thesis by (simp add: upper_def differ_only_in_case_map)
qed

lemma upper_ascii: "list_all is_ascii s \<Longrightarrow> upper uni s = map ascii_upper s"
  by (simp add: upper_def)

lemma upper_canonical:
  assumes "list_all is_ascii s"
  shows "differ_only_in_case s (upper uni s)"
    and "list_all (\<lambda>c. \<not> is_lower c) (upper uni s)"
    and "list_all is_ascii (upper uni s)"
    and "upper uni (upper uni s) = upper uni s"
proof -
  have u: "upper uni s = map ascii_upper s" using assms by (rule upper_ascii)
  show "differ_only_in_case s (upper uni s)"
    unfolding u differ_only_in_case_def
    by (simp add: list_all2_map2 list_all2_same same_letter_ascii_upper)
  show "list_all (\<lambda>c. \<not> is_lower c) (upper uni s)"
    unfolding u by (simp add: list_all_iff ascii_upper_not_lower)
  show a: "list_all is_ascii (upper uni s)"
    unfolding u using assms by (simp add: list_all_iff ascii_upper_is_ascii)
  from a have "upper uni (upper uni s) = map ascii_upper (upper uni s)" by (rule upper_ascii)
  then show "upper uni (upper uni s) = upper uni s"
    unfolding u by (simp add: ascii_upper_idem)
qed

lemma get_room_by_code_None:
  "get_room_by_code db c = None \<longleftrightarrow> (\<forall>d\<in>set (gameroom db). doc_code d \<noteq> c)"
proof -
  have t: "take 1 xs = [] \<longleftrightarrow> xs = []" for xs :: "room_doc list" by (cases xs) simp_all
  have "get_room_by_code db c = None
      \<longleftrightarrow> take 1 (filter (\<lambda>d. doc_code d = c) (gameroom db)) = []"
    by (cases "take 1 (filter (\<lambda>d. doc_code d = c) (gameroom db))")
       (simp_all add: get_room_by_code_def get_documents_def)
  also have "\<dots> \<longleftrightarrow> filter (\<lambda>d. doc_code d = c) (gameroom db) = []" by (rule t)
  also have "\<dots> \<longleftrightarrow> (\<forall>d\<in>set (gameroom db). doc_code d \<noteq> c)"
    by (simp add: filter_empty_conv)
  finally show ?thesis .
qed

lemma get_room_by_code_Some:
  assumes "get_room_by_code db c = Some r"
  shows "doc_code r = c" and "r \<in> set (gameroom db)"
proof -
  from assms obtain rs where "take 1 (filter (\<lambda>d. doc_code d = c) (gameroom db)) = r # rs"
    by (auto simp: get_room_by_code_def get_documents_def split: list.splits)
  then have "r \<in> set (take 1 (filter (\<lambda>d. doc_code d = c) (gameroom db)))" by simp
  then have "r \<in> set (filter (\<lambda>d. doc_code d = c) (gameroom db))" by (rule in_set_takeD)
  then show "doc_code r = c" and "r \<in> set (gameroom db)" by simp_all
qed

lemma join_room_404:
  "fst (join_room uni now1 now2 player_id payload db) = Inl (HTTPException 404 ''Room not found'')
     \<longleftrightarrow> (\<forall>d\<in>set (gameroom db). doc_code d \<noteq> upper uni (req_code payload))"
  unfolding get_room_by_code_None [symmetric]
  by (simp add: join_room_def split: option.splits)

lemma join_room_code:
  assumes "fst (join_room uni now1 now2 player_id payload db) = Inr (c, p)"
  shows "c = upper uni (req_code payload)"
proof (cases "get_room_by_code db (upper uni (req_code payload))")
  case None
  with assms show ?thesis by (simp add: join_room_def)
next
  case (Some room)
  then have "doc_code room = upper uni (req_code payload)" by (rule get_room_by_code_Some)
  with assms Some show ?thesis by (simp add: join_room_def split: if_splits)
qed

lemma get_room_404:
  "get_room uni object_id_raises code db = Inl (HTTPException 404 ''Room not found'')
     \<longleftrightarrow> (\<forall>d\<in>set (gameroom db). doc_code d \<noteq> upper uni code)"
  unfolding get_room_by_code_None [symmetric]
  by (simp add: get_room_def split: option.splits)

lemma get_room_code:
  assumes "get_room uni object_id_raises code db = Inr v"
  shows "view_code v = upper uni code"
proof (cases "get_room_by_code db (upper uni code)")
  case None
  with assms show ?thesis by (simp add: get_room_def)
next
  case (Some room)
  then have "doc_code room = upper uni code" by (rule get_room_by_code_Some)
  with assms Some show ?thesis by (auto simp: get_room_def split: if_splits)
qed

lemma start_game_404:
  "fst (start_game uni now code db) = Inl (HTTPException 404 ''Room not found'')
     \<longleftrightarrow> (\<forall>d\<in>set (gameroom db). doc_code d \<noteq> upper uni code)"
  unfolding get_room_by_code_None [symmetric]
  by (simp add: start_game_def split: option.splits)

lemma chars_canonical: "c \<in> set chars \<Longrightarrow> is_ascii c \<and> \<not> is_lower c"
  by (auto simp: chars_def is_ascii_def is_lower_def)

lemma gen_code_canonical: "upper uni (gen_code draw n) = gen_code draw n"
proof -
  have in_chars: "chars ! (k mod length chars) \<in> set chars" for k
    by (rule nth_mem) (simp add: chars_def)
  have a: "list_all is_ascii (gen_code draw n)"
    using in_chars chars_canonical by (simp add: gen_code_def list_all_iff)
  have "map ascii_upper (gen_code draw n) = gen_code draw n"
    using in_chars chars_canonical by (simp add: gen_code_def ascii_upper_other)
  with a show ?thesis by (simp add: upper_def)
qed

lemma unused_code_canonical:
  "upper uni code = code \<Longrightarrow> upper uni (unused_code db draws tries code) = unused_code db draws tries code"
proof (induction db draws tries code rule: unused_code.induct)
  case (1 db draws tries code)
  show ?case
  proof (cases "get_room_by_code db code \<noteq> None \<and> tries < 5")
    case True
    then have eq: "unused_code db draws tries code
        = unused_code db draws (tries + 1) (gen_code (draws (tries + 1)) 6)"
      by (subst unused_code.simps) (simp del: unused_code.simps)
    from "1.IH" [OF True gen_code_canonical] show ?thesis by (simp only: eq)
  next
    case False
    then have eq: "unused_code db draws tries code = code"
      by (subst unused_code.simps) (auto simp del: unused_code.simps)
    from "1.prems" show ?thesis by (simp only: eq)
  qed
qed

lemma create_room_canonical:
  "upper uni (fst (fst (create_room now1 now2 now3 player_id draws payload db)))
     = fst (fst (create_room now1 now2 now3 player_id draws payload db))"
  by (simp add: create_room_def Let_def unused_code_canonical gen_code_canonical)

lemma create_room_stored:
  "\<exists>d\<in>set (gameroom (snd (create_room now1 now2 now3 player_id draws payload db))).
      doc_code d = fst (fst (create_room now1 now2 now3 player_id draws payload db))"
  by (simp add: create_room_def Let_def)

lemma receive_loop_frame:
  "r \<noteq> code \<Longrightarrow> active (snd (receive_loop send_ok code ws inb w)) r = active w r"
proof (induction inb arbitrary: w)
  case Nil
  then show ?case by simp
next
  case (Cons x inb)
  show ?case
  proof (cases x)
    case (Data d)
    have b: "broadcast send_ok code d w = (Inr (), snd (broadcast send_ok code d w))"
      using broadcast_never_raises [of send_ok code d w] by (simp add: prod_eq_iff)
    have "receive_loop send_ok code ws (Data d # inb) w
        = receive_loop send_ok code ws inb (snd (broadcast send_ok code d w))"
      by (subst receive_loop.simps, subst b) simp
    with Data Cons.IH [OF Cons.prems, of "snd (broadcast send_ok code d w)"]
      broadcast_frame [OF Cons.prems, of send_ok d w]
    show ?thesis by simp
  next
    case PeerClosed
    with Cons.prems show ?thesis by (simp add: disconnect_frame)
  next
    case ReceiveFailed
    with Cons.prems show ?thesis by (simp add: disconnect_frame)
  qed
qed

lemma ws_room_run:
  "ws_room uni accept_ok send_ok ws code inb w =
     (if accept_ok (history w) ws
      then receive_loop send_ok (upper uni code) ws inb
             (snd (connect accept_ok (upper uni code) ws w))
      else connect accept_ok (upper uni code) ws w)"
  by (simp add: ws_room_def connect_def Let_def)

lemma ws_room_frame:
  assumes r: "r \<noteq> upper uni code"
  shows "active (snd (ws_room uni accept_ok send_ok ws code inb w)) r = active w r"
proof (cases "accept_ok (history w) ws")
  case True
  with receive_loop_frame [OF r, of send_ok ws inb "snd (connect accept_ok (upper uni code) ws w)"]
    connect_frame [OF r, of accept_ok ws w]
  show ?thesis by (simp add: ws_room_run)
next
  case False
  with connect_frame [OF r, of accept_ok ws w] show ?thesis by (simp add: ws_room_run)
qed

lemma ws_room_registers:
  assumes "accept_ok (history w) ws"
  shows "active (snd (ws_room uni accept_ok send_ok ws code [] w)) (upper uni code)
     = Some ((case active w (upper uni code) of None \<Rightarrow> [] | Some xs \<Rightarrow> xs) @ [ws])"
  using assms by (simp add: ws_room_run connect_accepted)

text \<open>
  C7. Every endpoint that takes a room code from a client replaces it by \<open>code.upper()\<close>
  before it uses it. The websocket handler is the run of \<open>connect\<close>, \<open>broadcast\<close> and
  \<open>disconnect\<close> with the key \<open>upper code\<close>: after the handshake the session is listed
  under that key, and no other key of the registry changes. \<open>join_room\<close>, \<open>get_room\<close> and
  \<open>start_game\<close> answer 404 exactly when the directory has no room stored under
  \<open>upper code\<close>, and the code they answer with is \<open>upper code\<close>. The code under which
  \<open>create_room\<close> stores a room is one that \<open>upper\<close> leaves as it is. For a code of ASCII
  characters the upper-case form differs from the code in letter case only, has no
  lower-case letter and is left as it is by \<open>upper\<close>; and two such codes that differ only
  in letter case have the same upper-case form, so the handler and the three endpoints do
  the same for both.
\<close>

theorem room_codes_are_case_insensitive:
  "(\<forall>r. r \<noteq> upper uni code \<longrightarrow>
       active (snd (ws_room uni accept_ok send_ok ws code inb w)) r = active w r)
   \<and> ws_room uni accept_ok send_ok ws code inb w =
       (if accept_ok (history w) ws
        then receive_loop send_ok (upper uni code) ws inb
               (snd (connect accept_ok (upper uni code) ws w))
        else connect accept_ok (upper uni code) ws w)
   \<and> (accept_ok (history w) ws \<longrightarrow>
        active (snd (ws_room uni accept_ok send_ok ws code [] w)) (upper uni code)
          = Some ((case active w (upper uni code) of None \<Rightarrow> [] | Some xs \<Rightarrow> xs) @ [ws]))
   \<and> (fst (join_room uni now1 now2 player_id (payload\<lparr>req_code := code\<rparr>) db)
          = Inl (HTTPException 404 ''Room not found'')
        \<longleftrightarrow> (\<forall>d\<in>set (gameroom db). doc_code d \<noteq> upper uni code))
   \<and> (\<forall>c p. fst (join_room uni now1 now2 player_id (payload\<lparr>req_code := code\<rparr>) db) = Inr (c, p)
          \<longrightarrow> c = upper uni code)
   \<and> (get_room uni object_id_raises code db = Inl (HTTPException 404 ''Room not found'')
        \<longleftrightarrow> (\<forall>d\<in>set (gameroom db). doc_code d \<noteq> upper uni code))
   \<and> (\<forall>v. get_room uni object_id_raises code db = Inr v \<longrightarrow> view_code v = upper uni code)
   \<and> (fst (start_game uni now code db) = Inl (HTTPException 404 ''Room not found'')
        \<longleftrightarrow> (\<forall>d\<in>set (gameroom db). doc_code d \<noteq> upper uni code))
   \<and> upper uni (fst (fst (create_room now3 now4 now5 host_id draws new_payload db)))
       = fst (fst (create_room now3 now4 now5 host_id draws new_payload db))
   \<and> (list_all is_ascii code \<longrightarrow>
        differ_only_in_case code (upper uni code)
      \<and> list_all (\<lambda>c. \<not> is_lower c) (upper uni code)
      \<and> upper uni (upper uni code) = upper uni code
      \<and> (\<forall>code'. differ_only_in_case code code' \<longrightarrow>
            upper uni code = upper uni code'
          \<and> ws_room uni accept_ok send_ok ws code inb w
              = ws_room uni accept_ok send_ok ws code' inb w
          \<and> join_room uni now1 now2 player_id (payload\<lparr>req_code := code\<rparr>) db
              = join_room uni now1 now2 player_id (payload\<lparr>req_code := code'\<rparr>) db
          \<and> get_room uni object_id_raises code db = get_room uni object_id_raises code' db
          \<and> start_game uni now code db = start_game uni now code' db))"
proof -
  have 1: "\<forall>r. r \<noteq> upper uni code \<longrightarrow>
       active (snd (ws_room uni accept_ok send_ok ws code inb w)) r = active w r"
    by (simp add: ws_room_frame)
  have 2: "ws_room uni accept_ok send_ok ws code inb w =
       (if accept_ok (history w) ws
        then receive_loop send_ok (upper uni code) ws inb
               (snd (connect accept_ok (upper uni code) ws w))
        else connect accept_ok (upper uni code) ws w)"
    by (rule ws_room_run)
  have 3: "accept_ok (history w) ws \<longrightarrow>
        active (snd (ws_room uni accept_ok send_ok ws code [] w)) (upper uni code)
          = Some ((case active w (upper uni code) of None \<Rightarrow> [] | Some xs \<Rightarrow> xs) @ [ws])"
    by (intro impI) (rule ws_room_registers)
  have 4: "fst (join_room uni now1 now2 player_id (payload\<lparr>req_code := code\<rparr>) db)
          = Inl (HTTPException 404 ''Room not found'')
        \<longleftrightarrow> (\<forall>d\<in>set (gameroom db). doc_code d \<noteq> upper uni code)"
    using join_room_404 [of uni now1 now2 player_id "payload\<lparr>req_code := code\<rparr>" db] by simp
  have 5: "\<forall>c p. fst (join_room uni now1 now2 player_id (payload\<lparr>req_code := code\<rparr>) db) = Inr (c, p)
          \<longrightarrow> c = upper uni code"
    using join_room_code [of uni now1 now2 player_id "payload\<lparr>req_code := code\<rparr>" db] by simp
  have 6: "get_room uni object_id_raises code db = Inl (HTTPException 404 ''Room not found'')
        \<longleftrightarrow> (\<forall>d\<in>set (gameroom db). doc_code d \<noteq> upper uni code)"
    by (rule get_room_404)
  have 7: "\<forall>v. get_room uni object_id_raises code db = Inr v \<longrightarrow> view_code v = upper uni code"
    by (intro allI impI) (rule get_room_code)
  have 8: "fst (start_game uni now code db) = Inl (HTTPException 404 ''Room not found'')
        \<longleftrightarrow> (\<forall>d\<in>set (gameroom db). doc_code d \<noteq> upper uni code)"
    by (rule start_game_404)
  have 9: "upper uni (fst (fst (create_room now3 now4 now5 host_id draws new_payload db)))
       = fst (fst (create_room now3 now4 now5 host_id draws new_payload db))"
    by (rule create_room_canonical)
  have 10: "list_all is_ascii code \<longrightarrow>
        differ_only_in_case code (upper uni code)
      \<and> list_all (\<lambda>c. \<not> is_lower c) (upper uni code)
      \<and> upper uni (upper uni code) = upper uni code
      \<and> (\<forall>code'. differ_only_in_case code code' \<longrightarrow>
            upper uni code = upper uni code'
          \<and> ws_room uni accept_ok send_ok ws code inb w
              = ws_room uni accept_ok send_ok ws code' inb w
          \<and> join_room uni now1 now2 player_id (payload\<lparr>req_code := code\<rparr>) db
              = join_room uni now1 now2 player_id (payload\<lparr>req_code := code'\<rparr>) db
          \<and> get_room uni object_id_raises code db = get_room uni object_id_raises code' db
          \<and> start_game uni now code db = start_game uni now code' db)"
  proof
    assume a: "list_all is_ascii code"
    have variants: "\<forall>code'. differ_only_in_case code code' \<longrightarrow>
            upper uni code = upper uni code'
          \<and> ws_room uni accept_ok send_ok ws code inb w
              = ws_room uni accept_ok send_ok ws code' inb w
          \<and> join_room uni now1 now2 player_id (payload\<lparr>req_code := code\<rparr>) db
              = join_room uni now1 now2 player_id (payload\<lparr>req_code := code'\<rparr>) db
          \<and> get_room uni object_id_raises code db = get_room uni object_id_raises code' db
          \<and> start_game uni now code db = start_game uni now code' db"
    proof (intro allI impI)
      fix code' assume "differ_only_in_case code code'"
      with a have u: "upper uni code = upper uni code'" by (rule upper_differ_only_in_case)
      have w: "ws_room uni accept_ok send_ok ws code inb w
          = ws_room uni accept_ok send_ok ws code' inb w"
        by (simp add: ws_room_def u)
      have j: "join_room uni now1 now2 player_id (payload\<lparr>req_code := code\<rparr>) db
          = join_room uni now1 now2 player_id (payload\<lparr>req_code := code'\<rparr>) db"
        by (simp add: join_room_def u split: option.splits)
      have g: "get_room uni object_id_raises code db = get_room uni object_id_raises code' db"
        by (simp add: get_room_def u)
      have s: "start_game uni now code db = start_game uni now code' db"
        by (simp add: start_game_def u)
      from u w j g s show "upper uni code = upper uni code'
          \<and> ws_room uni accept_ok send_ok ws code inb w
              = ws_room uni accept_ok send_ok ws code' inb w
          \<and> join_room uni now1 now2 player_id (payload\<lparr>req_code := code\<rparr>) db
              = join_room uni now1 now2 player_id (payload\<lparr>req_code := code'\<rparr>) db
          \<and> get_room uni object_id_raises code db = get_room uni object_id_raises code' db
          \<and> start_game uni now code db = start_game uni now code' db"
        by (intro conjI)
    qed
    from upper_canonical(1,2,4) [OF a, of uni] variants
    show "differ_only_in_case code (upper uni code)
      \<and> list_all (\<lambda>c. \<not> is_lower c) (upper uni code)
      \<and> upper uni (upper uni code) = upper uni code
      \<and> (\<forall>code'. differ_only_in_case code code' \<longrightarrow>
            upper uni code = upper uni code'
          \<and> ws_room uni accept_ok send_ok ws code inb w
              = ws_room uni accept_ok send_ok ws code' inb w
          \<and> join_room uni now1 now2 player_id (payload\<lparr>req_code := code\<rparr>) db
              = join_room uni now1 now2 player_id (payload\<lparr>req_code := code'\<rparr>) db
          \<and> get_room uni object_id_raises code db = get_room uni object_id_raises code' db
          \<and> start_game uni now code db = start_game uni now code' db)"
      by (intro conjI)
  qed
  from 1 2 3 4 5 6 7 8 9 10 show ?thesis by (intro conjI)
qed

theorem room_codes_are_case_insensitive_witness:
  "list_all is_ascii ''ab12c9''
   \<and> differ_only_in_case ''ab12c9'' ''Ab12C9''
   \<and> upper (\<lambda>s. s) ''ab12c9'' = ''AB12C9''
   \<and> upper (\<lambda>s. s) ''Ab12C9'' = ''AB12C9''
   \<and> active (snd (ws_room (\<lambda>s. s) (\<lambda>h ws. True) (\<lambda>h ws m. True) (1 :: nat) ''ab12c9'' []
        (initial :: (nat, string) world))) ''AB12C9'' = Some [1]
   \<and> ws_room (\<lambda>s. s) (\<lambda>h ws. True) (\<lambda>h ws m. True) (1 :: nat) ''ab12c9'' []
        (initial :: (nat, string) world)
       = ws_room (\<lambda>s. s) (\<lambda>h ws. True) (\<lambda>h ws m. True) 1 ''Ab12C9'' [] initial
   \<and> fst (join_room (\<lambda>s. s) ''t1'' ''t2'' ''p2''
        \<lparr>req_name = ''bob'', req_avatar = None, req_code = ''ab12c9''\<rparr>
        \<lparr>gameroom = [\<lparr>doc_code = ''AB12C9'', doc_host_id = ''p1'', doc_status = Some ''waiting'',
                       doc_players = [''p1''], doc_created_at = ''t0'', doc_updated_at = ''t0''\<rparr>],
          player = []\<rparr>) = Inr (''AB12C9'', ''p2'')
   \<and> join_room (\<lambda>s. s) ''t1'' ''t2'' ''p2''
        \<lparr>req_name = ''bob'', req_avatar = None, req_code = ''ab12c9''\<rparr>
        \<lparr>gameroom = [\<lparr>doc_code = ''AB12C9'', doc_host_id = ''p1'', doc_status = Some ''waiting'',
                       doc_players = [''p1''], doc_created_at = ''t0'', doc_updated_at = ''t0''\<rparr>],
          player = []\<rparr>
       = join_room (\<lambda>s. s) ''t1'' ''t2'' ''p2''
        \<lparr>req_name = ''bob'', req_avatar = None, req_code = ''Ab12C9''\<rparr>
        \<lparr>gameroom = [\<lparr>doc_code = ''AB12C9'', doc_host_id = ''p1'', doc_status = Some ''waiting'',
                       doc_players = [''p1''], doc_created_at = ''t0'', doc_updated_at = ''t0''\<rparr>],
          player = []\<rparr>"
proof -
  let ?db = "\<lparr>gameroom = [\<lparr>doc_code = ''AB12C9'', doc_host_id = ''p1'', doc_status = Some ''waiting'',
                       doc_players = [''p1''], doc_created_at = ''t0'', doc_updated_at = ''t0''\<rparr>],
          player = []\<rparr>"
  have a: "list_all is_ascii ''ab12c9''" by (simp add: is_ascii_def)
  have d: "differ_only_in_case ''ab12c9'' ''Ab12C9''"
    by (simp add: differ_only_in_case_def same_letter_def is_letter_def)
  have u: "upper (\<lambda>s. s) ''ab12c9'' = ''AB12C9''"
    by (simp add: upper_def is_ascii_def ascii_upper_def is_lower_def char_of_def bit_iff_odd)
  have ok: "(\<lambda>h ws. True) (history (initial :: (nat, string) world)) (1 :: nat)" by simp
  have found: "\<not> (\<forall>d\<in>set (gameroom ?db). doc_code d \<noteq> ''AB12C9'')" by simp
  note t = room_codes_are_case_insensitive
    [where uni = "\<lambda>s. s" and code = "''ab12c9''" and accept_ok = "\<lambda>h ws. True"
       and send_ok = "\<lambda>h ws m. True" and ws = "1 :: nat" and inb = "[]"
       and w = "initial :: (nat, string) world" and ?now1.0 = "''t1''" and ?now2.0 = "''t2''"
       and player_id = "''p2''"
       and payload = "\<lparr>req_name = ''bob'', req_avatar = None, req_code = ''''\<rparr>"
       and db = ?db and object_id_raises = "\<lambda>pid. False" and now = "''t3''"
       and ?now3.0 = "''t4''" and ?now4.0 = "''t5''" and ?now5.0 = "''t6''"
       and host_id = "''p3''" and draws = "\<lambda>k i. 0"
       and new_payload = "\<lparr>new_name = ''cy'', new_avatar = None\<rparr>"]
  note t10 = t [THEN conjunct2, THEN conjunct2, THEN conjunct2, THEN conjunct2, THEN conjunct2,
      THEN conjunct2, THEN conjunct2, THEN conjunct2, THEN conjunct2]
  note tv = t10 [THEN mp, OF a, THEN conjunct2, THEN conjunct2, THEN conjunct2, THEN spec,
      of "''Ab12C9''", THEN mp, OF d]
  from tv have v: "upper (\<lambda>s. s) ''ab12c9'' = upper (\<lambda>s. s) ''Ab12C9''"
    by (rule conjunct1)
  from tv have w: "ws_room (\<lambda>s. s) (\<lambda>h ws. True) (\<lambda>h ws m. True) (1 :: nat) ''ab12c9'' []
        (initial :: (nat, string) world)
       = ws_room (\<lambda>s. s) (\<lambda>h ws. True) (\<lambda>h ws m. True) 1 ''Ab12C9'' [] initial"
    by (rule conjunct2 [THEN conjunct1])
  from tv [THEN conjunct2, THEN conjunct2, THEN conjunct1]
  have j: "join_room (\<lambda>s. s) ''t1'' ''t2'' ''p2''
        \<lparr>req_name = ''bob'', req_avatar = None, req_code = ''ab12c9''\<rparr> ?db
       = join_room (\<lambda>s. s) ''t1'' ''t2'' ''p2''
        \<lparr>req_name = ''bob'', req_avatar = None, req_code = ''Ab12C9''\<rparr> ?db"
    by simp
  from t [THEN conjunct2, THEN conjunct2, THEN conjunct1, THEN mp, OF ok]
  have r: "active (snd (ws_room (\<lambda>s. s) (\<lambda>h ws. True) (\<lambda>h ws m. True) (1 :: nat)
        ''ab12c9'' [] (initial :: (nat, string) world))) ''AB12C9'' = Some [1]"
    unfolding u by (simp add: initial_def)
  have k: "fst (join_room (\<lambda>s. s) ''t1'' ''t2'' ''p2''
        \<lparr>req_name = ''bob'', req_avatar = None, req_code = ''ab12c9''\<rparr> ?db)
      = Inr (''AB12C9'', ''p2'')"
    by (simp add: join_room_def u get_room_by_code_def get_documents_def)
  from v u have u': "upper (\<lambda>s. s) ''Ab12C9'' = ''AB12C9''" by simp
  from a d u u' r w k j show ?thesis by (intro conjI)
qed

section \<open>Admission of a websocket\<close>

text \<open>
  C4. \<open>ws_room\<close> does not consult the directory: it takes no directory at all. With an
  empty directory the code zz9999 does not resolve, and \<open>join_room\<close> answers 404 for it;
  a websocket opened for the same code is accepted and registered under ZZ9999.
\<close>

theorem ws_room_registers_unknown_code:
  "get_room_by_code \<lparr>gameroom = [], player = []\<rparr> (upper uni ''zz9999'') = None
   \<and> fst (join_room uni ''t1'' ''t2'' ''p1''
        \<lparr>req_name = ''ann'', req_avatar = None, req_code = ''zz9999''\<rparr>
        \<lparr>gameroom = [], player = []\<rparr>) = Inl (HTTPException 404 ''Room not found'')
   \<and> fst (ws_room uni (\<lambda>h ws. True) (\<lambda>h ws m. True) (1 :: nat) ''zz9999'' []
        (initial :: (nat, string) world)) = Inr ()
   \<and> active (snd (ws_room uni (\<lambda>h ws. True) (\<lambda>h ws m. True) (1 :: nat) ''zz9999'' []
        (initial :: (nat, string) world))) ''ZZ9999'' = Some [1]"
proof -
  have u: "upper uni ''zz9999'' = ''ZZ9999''"
    by (simp add: upper_def is_ascii_def ascii_upper_def is_lower_def char_of_def bit_iff_odd)
  have 1: "get_room_by_code \<lparr>gameroom = [], player = []\<rparr> (upper uni ''zz9999'') = None"
    by (simp add: get_room_by_code_def get_documents_def)
  then have 2: "fst (join_room uni ''t1'' ''t2'' ''p1''
        \<lparr>req_name = ''ann'', req_avatar = None, req_code = ''zz9999''\<rparr>
        \<lparr>gameroom = [], player = []\<rparr>) = Inl (HTTPException 404 ''Room not found'')"
    by (simp add: join_room_def)
  have 3: "ws_room uni (\<lambda>h ws. True) (\<lambda>h ws m. True) (1 :: nat) ''zz9999'' []
        (initial :: (nat, string) world)
      = (Inr (), \<lparr>active = [''ZZ9999'' \<mapsto> [1]], history = [Accept 1 True]\<rparr>)"
    by (simp add: ws_room_def connect_def initial_def u)
  from 1 2 3 show ?thesis by simp
qed

section \<open>A broadcast interrupted by a leave and a join\<close>

text \<open>
  Left alone, a broadcast on the store does what \<open>broadcast\<close> does, and the two other
  steps do what \<open>connect\<close> and \<open>disconnect\<close> do to the registry.
\<close>

lemma loop_head_uninterrupted:
  assumes "living \<noteq> iter" and "i \<le> length (list_obj s iter)"
    and "broadcast_loop send_ok m (drop i (list_obj s iter)) (list_obj s living) (io_log s) = (living', h')"
  shows "schedule send_ok (replicate (length (list_obj s iter) - i) SendDone)
           (loop_head room m iter i living s)
         = (None, s\<lparr>list_obj := (list_obj s)(living := living'), io_log := h',
                     active_ref := (active_ref s)(room \<mapsto> living)\<rparr>)"
  using assms
proof (induction "length (list_obj s iter) - i" arbitrary: s i)
  case 0
  then have i: "i = length (list_obj s iter)" by simp
  with "0.prems"(3) have "living' = list_obj s living" "h' = io_log s" by simp_all
  then have eq: "s\<lparr>list_obj := (list_obj s)(living := living'), io_log := h',
                active_ref := (active_ref s)(room \<mapsto> living)\<rparr>
      = s\<lparr>active_ref := (active_ref s)(room \<mapsto> living)\<rparr>"
    by simp
  from i have lh: "loop_head room m iter i living s
      = (None, s\<lparr>active_ref := (active_ref s)(room \<mapsto> living)\<rparr>)"
    by (simp add: loop_head_def)
  from i have z: "length (list_obj s iter) - i = 0" by simp
  show ?case by (simp only: z replicate.simps lh schedule.simps eq)
next
  case (Suc n)
  let ?xs = "list_obj s iter"
  let ?ws = "?xs ! i"
  let ?ok = "send_ok (io_log s) ?ws m"
  from Suc.hyps(2) have lt: "i < length ?xs" by simp
  then have dr: "drop i ?xs = ?ws # drop (Suc i) ?xs" by (simp add: Cons_nth_drop_Suc)
  define s1 where "s1 =
    (if ?ok then s\<lparr>list_obj := (list_obj s)(living := list_obj s living @ [?ws]),
                   io_log := io_log s @ [Send ?ws m True]\<rparr>
     else s\<lparr>io_log := io_log s @ [Send ?ws m False]\<rparr>)"
  have it: "list_obj s1 iter = ?xs" using Suc.prems(1) by (simp add: s1_def)
  have run: "broadcast_loop send_ok m (drop (Suc i) (list_obj s1 iter)) (list_obj s1 living) (io_log s1)
      = (living', h')"
    using Suc.prems(3) Suc.prems(1) by (cases ?ok) (simp_all add: dr s1_def)
  have n: "n = length (list_obj s1 iter) - Suc i" using Suc.hyps(2) by (simp add: it)
  have le: "Suc i \<le> length (list_obj s1 iter)" using lt by (simp add: it)
  have step: "schedule send_ok (replicate (length ?xs - i) SendDone) (loop_head room m iter i living s)
      = schedule send_ok (replicate (length (list_obj s1 iter) - Suc i) SendDone)
          (loop_head room m iter (Suc i) living s1)"
  proof -
    have "replicate (length ?xs - i) SendDone
        = SendDone # replicate (length (list_obj s1 iter) - Suc i) (SendDone :: 'a event)"
    proof -
      from lt have "length ?xs - i = Suc (length ?xs - Suc i)" by simp
      then show ?thesis by (simp only: it replicate_Suc)
    qed
    moreover have "loop_head room m iter i living s
        = (Some \<lparr>b_room = room, b_message = m, b_iter = iter, b_index = Suc i,
                  b_living = living, b_ws = ?ws\<rparr>, s)"
      using lt by (simp add: loop_head_def)
    ultimately show ?thesis by (simp add: broadcast_resume_def s1_def)
  qed
  have fin: "s1\<lparr>list_obj := (list_obj s1)(living := living'), io_log := h',
                 active_ref := (active_ref s1)(room \<mapsto> living)\<rparr>
      = s\<lparr>list_obj := (list_obj s)(living := living'), io_log := h',
            active_ref := (active_ref s)(room \<mapsto> living)\<rparr>"
    by (simp add: s1_def)
  from Suc.hyps(1) [OF n Suc.prems(1) le run] step fin show ?case by simp
qed

lemma broadcast_uninterrupted:
  assumes wf: "store_ok s" and r: "active_ref s room = Some r"
  shows "\<exists>s'. schedule send_ok (replicate (length (list_obj s r)) SendDone) (broadcast_begin room m s)
              = (None, s')
            \<and> world_of s' = snd (broadcast send_ok room m (world_of s))"
proof -
  let ?l = "next_ref s"
  let ?s1 = "s\<lparr>list_obj := (list_obj s)(?l := []), next_ref := Suc ?l\<rparr>"
  from wf r have lr: "r \<noteq> ?l" by (auto simp: store_ok_def)
  then have it: "list_obj ?s1 r = list_obj s r" by simp
  obtain living h where
    loop: "broadcast_loop send_ok m (list_obj s r) [] (io_log s) = (living, h)"
    by (cases "broadcast_loop send_ok m (list_obj s r) [] (io_log s)")
  have start: "broadcast_begin room m s = loop_head room m r 0 ?l ?s1"
    using r by (simp add: broadcast_begin_def new_list_def)
  have "schedule send_ok (replicate (length (list_obj ?s1 r) - 0) SendDone)
          (loop_head room m r 0 ?l ?s1)
        = (None, ?s1\<lparr>list_obj := (list_obj ?s1)(?l := living), io_log := h,
                       active_ref := (active_ref ?s1)(room \<mapsto> ?l)\<rparr>)"
    by (rule loop_head_uninterrupted) (use lr loop in \<open>simp_all\<close>)
  then have run: "schedule send_ok (replicate (length (list_obj s r)) SendDone) (broadcast_begin room m s)
        = (None, ?s1\<lparr>list_obj := (list_obj ?s1)(?l := living), io_log := h,
                       active_ref := (active_ref ?s1)(room \<mapsto> ?l)\<rparr>)"
    using lr by (simp add: start)
  have reg: "registry (?s1\<lparr>list_obj := (list_obj ?s1)(?l := living), io_log := h,
                       active_ref := (active_ref ?s1)(room \<mapsto> ?l)\<rparr>)
      = (registry s)(room \<mapsto> living)"
  proof
    fix x
    show "registry (?s1\<lparr>list_obj := (list_obj ?s1)(?l := living), io_log := h,
                       active_ref := (active_ref ?s1)(room \<mapsto> ?l)\<rparr>) x
        = ((registry s)(room \<mapsto> living)) x"
    proof (cases "x = room")
      case True
      then show ?thesis by (simp add: registry_def)
    next
      case False
      show ?thesis
      proof (cases "active_ref s x")
        case None
        with False show ?thesis by (simp add: registry_def)
      next
        case (Some q)
        with wf have "q \<noteq> ?l" by (auto simp: store_ok_def)
        with False Some show ?thesis by (simp add: registry_def)
      qed
    qed
  qed
  have seq: "snd (broadcast send_ok room m (world_of s))
      = \<lparr>active = (registry s)(room \<mapsto> living), history = h\<rparr>"
    using r loop by (simp add: broadcast_def getitem_def world_of_def registry_def)
  from run reg seq show ?thesis by (simp add: world_of_def)
qed


lemma setdefault_append_registry:
  assumes wf: "store_ok s"
  shows "registry (setdefault_append room ws s)
     = (registry s)(room \<mapsto> (case registry s room of None \<Rightarrow> [] | Some xs \<Rightarrow> xs) @ [ws])"
proof
  fix x
  show "registry (setdefault_append room ws s) x
     = ((registry s)(room \<mapsto> (case registry s room of None \<Rightarrow> [] | Some xs \<Rightarrow> xs) @ [ws])) x"
  proof (cases "active_ref s room")
    case None
    show ?thesis
    proof (cases "active_ref s x")
      case n: None
      with None show ?thesis by (simp add: setdefault_append_def new_list_def registry_def)
    next
      case (Some q)
      with wf have "q \<noteq> next_ref s" by (auto simp: store_ok_def)
      with None Some show ?thesis
        by (auto simp: setdefault_append_def new_list_def registry_def)
    qed
  next
    case (Some r)
    show ?thesis
    proof (cases "active_ref s x")
      case None
      with Some show ?thesis by (auto simp: setdefault_append_def registry_def)
    next
      case q: (Some q)
      from wf Some q have "q = r \<longrightarrow> x = room" by (auto simp: store_ok_def)
      with Some q show ?thesis by (auto simp: setdefault_append_def registry_def)
    qed
  qed
qed

lemma disconnect_in_place_registry:
  assumes wf: "store_ok s"
  shows "world_of (disconnect_in_place room ws s) = snd (disconnect room ws (world_of s))"
proof (cases "active_ref s room")
  case None
  then have "active (world_of s) room = None" by (simp add: world_of_def registry_def)
  with None show ?thesis by (simp add: disconnect_absent_room disconnect_in_place_def)
next
  case (Some r)
  then have a: "active (world_of s) room = Some (list_obj s r)"
    by (simp add: world_of_def registry_def)
  show ?thesis
  proof (cases "ws \<in> set (list_obj s r)")
    case False
    with Some a show ?thesis by (simp add: disconnect_absent_session disconnect_in_place_def)
  next
    case True
    have other: "active_ref s x = Some q \<Longrightarrow> x \<noteq> room \<Longrightarrow> q \<noteq> r" for x q
      using wf Some by (auto simp: store_ok_def)
    show ?thesis
    proof (cases "remove1 ws (list_obj s r) = []")
      case e: True
      have "registry (disconnect_in_place room ws s) = (registry s)(room := None)"
      proof
        fix x
        show "registry (disconnect_in_place room ws s) x = ((registry s)(room := None)) x"
          using Some True e other [of x]
          by (cases "active_ref s x") (auto simp: disconnect_in_place_def registry_def)
      qed
      moreover have "io_log (disconnect_in_place room ws s) = io_log s"
        using Some True e by (simp add: disconnect_in_place_def)
      ultimately show ?thesis
        using a True e by (simp add: disconnect_last world_of_def)
    next
      case ne: False
      have "registry (disconnect_in_place room ws s)
          = (registry s)(room \<mapsto> remove1 ws (list_obj s r))"
      proof
        fix x
        show "registry (disconnect_in_place room ws s) x
            = ((registry s)(room \<mapsto> remove1 ws (list_obj s r))) x"
          using Some True ne other [of x]
          by (cases "active_ref s x") (auto simp: disconnect_in_place_def registry_def)
      qed
      moreover have "io_log (disconnect_in_place room ws s) = io_log s"
        using Some True ne by (simp add: disconnect_in_place_def)
      ultimately show ?thesis
        using a True ne by (simp add: disconnect_one_of_many world_of_def)
    qed
  qed
qed

lemma uninterrupted_example:
  "schedule (\<lambda>h ws m. ws \<noteq> 2) [SendDone, SendDone, SendDone]
     (broadcast_begin ''AB12C9'' ''hi''
        (setdefault_append ''AB12C9'' 3 (setdefault_append ''AB12C9'' 2
          (setdefault_append ''AB12C9'' (1 :: nat) (empty_store :: (nat, string) store)))))
   = (None, \<lparr>active_ref = [''AB12C9'' \<mapsto> 1], list_obj = (\<lambda>r. [])(0 := [1, 2, 3], 1 := [1, 3]),
              next_ref = 2,
              io_log = [Send 1 ''hi'' True, Send 2 ''hi'' False, Send 3 ''hi'' True]\<rparr>)"
  by (simp add: broadcast_begin_def broadcast_resume_def loop_head_def setdefault_append_def
      new_list_def empty_store_def)

text \<open>
  C8. Room AB12C9 holds session 1, and a broadcast to the room waits in the send to
  session 1. While it waits, session 1 is unregistered, which empties the list object and
  deletes the key, and session 3 is registered, which binds the room to a new list object
  holding session 3. Then the send returns: \<open>living\<close> is \<open>[1]\<close>, the iterator finds the old
  list object exhausted, and the room is bound to \<open>living\<close>. The registry ends with the
  list \<open>[1]\<close> for the room: session 3, which joined during the broadcast, is lost, and
  session 1, which left during the broadcast, is back.
\<close>

theorem broadcast_race_loses_joiner:
  "fst (broadcast_begin ''AB12C9'' ''hi''
          (setdefault_append ''AB12C9'' (1 :: nat) (empty_store :: (nat, string) store)))
     = Some \<lparr>b_room = ''AB12C9'', b_message = ''hi'', b_iter = 0, b_index = 1, b_living = 1,
              b_ws = 1\<rparr>
   \<and> registry (snd (schedule transport_up [Leaves ''AB12C9'' 1, Joins ''AB12C9'' 3]
        (broadcast_begin ''AB12C9'' ''hi''
          (setdefault_append ''AB12C9'' (1 :: nat) (empty_store :: (nat, string) store)))))
        ''AB12C9'' = Some [3]
   \<and> fst (schedule transport_up [Leaves ''AB12C9'' 1, Joins ''AB12C9'' 3, SendDone]
        (broadcast_begin ''AB12C9'' ''hi''
          (setdefault_append ''AB12C9'' (1 :: nat) (empty_store :: (nat, string) store))))
       = None
   \<and> registry (snd (schedule transport_up [Leaves ''AB12C9'' 1, Joins ''AB12C9'' 3, SendDone]
        (broadcast_begin ''AB12C9'' ''hi''
          (setdefault_append ''AB12C9'' (1 :: nat) (empty_store :: (nat, string) store)))))
        ''AB12C9'' = Some [1]"
  by (simp add: broadcast_begin_def broadcast_resume_def loop_head_def setdefault_append_def
      disconnect_in_place_def new_list_def empty_store_def registry_def transport_up_def)

end
